theory Spec2Isabelle
  imports Complex_Main "HOL-Library.Sublist"
begin

section \<open>The pre-commit hook \<open>pre-commit.py\<close>\<close>

text \<open>
  The hook is one Python script of four functions: \<open>get_frontmatter\<close>,
  \<open>update_frontmatter\<close>, \<open>calculate_reading_time\<close> and \<open>main\<close>.  They are embedded
  here function by function.  A Python \<open>str\<close> is a \<^typ>\<open>string\<close>; a \<^typ>\<open>char\<close> stands for
  a code point below 256, and the character classes below are Python's on that range.  What
  Python's library does (regular expressions, \<open>str\<close> methods, true division) is written
  out as recursive functions over the text.
\<close>

subsection \<open>Character classes\<close>

abbreviation LF :: char where "LF \<equiv> CHR 0x0A"
abbreviation CR :: char where "CR \<equiv> CHR 0x0D"

text \<open>
  \<open>str.isspace\<close>, which is also what \<open>str.split()\<close> splits at and what \<open>\s\<close>
  matches in a \<open>str\<close> pattern: the code points 9 to 13, 28 to 32, 0x85 and 0xA0.
\<close>

definition isspace :: "char \<Rightarrow> bool" where
  "isspace c =
     (let n = (of_char c :: nat)
      in (9 \<le> n \<and> n \<le> 13) \<or> (28 \<le> n \<and> n \<le> 32) \<or> n = 133 \<or> n = 160)"

text \<open>
  The line boundaries of \<open>str.splitlines()\<close>: \<open>\n\<close>, \<open>\r\<close>, \<open>\v\<close>, \<open>\f\<close>,
  0x1C, 0x1D, 0x1E and 0x85 (and the pair \<open>\r\n\<close>, which \<open>splitlines\<close> below treats).
\<close>

definition islinebreak :: "char \<Rightarrow> bool" where
  "islinebreak c =
     (let n = (of_char c :: nat)
      in (10 \<le> n \<and> n \<le> 13) \<or> (28 \<le> n \<and> n \<le> 30) \<or> n = 133)"

text \<open>
  \<open>\w\<close> in a \<open>str\<close> pattern: the alphanumeric code points and the underscore.  Below
  256 the alphanumerics are the ASCII digits and letters, 0xAA, 0xB2, 0xB3, 0xB5, 0xB9, 0xBA,
  0xBC to 0xBE, and 0xC0 to 0xFF without 0xD7 and 0xF7.
\<close>

definition isword :: "char \<Rightarrow> bool" where
  "isword c =
     (let n = (of_char c :: nat)
      in (48 \<le> n \<and> n \<le> 57) \<or> (65 \<le> n \<and> n \<le> 90) \<or> n = 95 \<or> (97 \<le> n \<and> n \<le> 122)
         \<or> n = 170 \<or> n = 178 \<or> n = 179 \<or> n = 181 \<or> n = 185 \<or> n = 186
         \<or> (188 \<le> n \<and> n \<le> 190) \<or> (192 \<le> n \<and> n \<noteq> 215 \<and> n \<noteq> 247))"

subsection \<open>\<open>str.split()\<close> and \<open>str.splitlines()\<close>\<close>

text \<open>
  \<open>text.split()\<close> with no argument: the maximal runs of non-whitespace characters, in
  order.  The first argument is the word read so far, reversed.
\<close>

fun split_from :: "string \<Rightarrow> string \<Rightarrow> string list" where
  "split_from w [] = (if w = [] then [] else [rev w])"
| "split_from w (c # cs) =
     (if isspace c then (if w = [] then split_from [] cs else rev w # split_from [] cs)
      else split_from (c # w) cs)"

definition py_split :: "string \<Rightarrow> string list" where
  "py_split text = split_from [] text"

text \<open>
  \<open>text.splitlines()\<close>: the lines without their line boundaries; \<open>\r\n\<close> is one
  boundary, and a text that ends in a boundary has no empty last line.  The first argument
  is the line read so far, reversed.
\<close>

fun splitlines_from :: "string \<Rightarrow> string \<Rightarrow> string list" where
  "splitlines_from l [] = (if l = [] then [] else [rev l])"
| "splitlines_from l (c # cs) =
     (if c = CR then
        (case cs of
           [] \<Rightarrow> [rev l]
         | d # ds \<Rightarrow> if d = LF then rev l # splitlines_from [] ds
                     else rev l # splitlines_from [] cs)
      else if islinebreak c then rev l # splitlines_from [] cs
      else splitlines_from (c # l) cs)"

definition splitlines :: "string \<Rightarrow> string list" where
  "splitlines text = splitlines_from [] text"

subsection \<open>The regular expressions and \<open>str.replace\<close>\<close>

text \<open>
  The frontmatter delimiter of the pattern \<open>---\n(.*?)---\n\<close>: three dashes and a
  newline.
\<close>

definition delim :: string where
  "delim = [CHR ''-'', CHR ''-'', CHR ''-'', LF]"

text \<open>
  \<open>(.*?)---\n\<close> under \<open>re.DOTALL\<close>, tried at the start of the given text: the lazy
  group takes one more character (any character, newlines too) until the delimiter follows.
  The first argument is the group read so far, reversed.
\<close>

fun lazy_group :: "string \<Rightarrow> string \<Rightarrow> string option" where
  "lazy_group g [] = None"
| "lazy_group g (c # cs) =
     (if prefix delim (c # cs) then Some (rev g) else lazy_group (c # g) cs)"

text \<open>
  \<open>re.search(r'---\n(.*?)---\n', content, re.DOTALL)\<close>: the start positions are tried
  from left to right; the result is \<open>match.group(1)\<close> of the first position that matches,
  \<open>None\<close> when no position does.
\<close>

fun re_search_frontmatter :: "string \<Rightarrow> string option" where
  "re_search_frontmatter [] = None"
| "re_search_frontmatter (c # cs) =
     (if prefix delim (c # cs) then
        (case lazy_group [] (drop (length delim) (c # cs)) of
           Some g \<Rightarrow> Some g
         | None \<Rightarrow> re_search_frontmatter cs)
      else re_search_frontmatter cs)"

text \<open>
  \<open>re.sub(rf'{key}:\s*.*', repl, text)\<close> for a key that is plain text in a pattern (as
  all keys of \<open>main\<close> are) and a replacement without backslash: every match, from left to
  right, is replaced.  A match is the key and a colon, then all the whitespace that follows
  (\<open>\s*\<close> is greedy and takes newlines), then the characters up to the next newline
  (\<open>.*\<close> without \<open>re.DOTALL\<close>); the search goes on after the match.
\<close>

function re_sub_key :: "string \<Rightarrow> string \<Rightarrow> string \<Rightarrow> string" where
  "re_sub_key key repl [] = []"
| "re_sub_key key repl (c # cs) =
     (if prefix (key @ '':'') (c # cs) then
        repl @ re_sub_key key repl
                 (dropWhile (\<lambda>x. x \<noteq> LF) (dropWhile isspace (drop (length key) cs)))
      else c # re_sub_key key repl cs)"
  by pat_completeness auto
termination
proof (relation "measure (\<lambda>(key, repl, text). length text)")
  fix key repl :: string and c :: char and cs :: string
  have "length (dropWhile (\<lambda>x. x \<noteq> LF) (dropWhile isspace (drop (length key) cs)))
          \<le> length (dropWhile isspace (drop (length key) cs))"
    by (rule length_dropWhile_le)
  also have "\<dots> \<le> length (drop (length key) cs)"
    by (rule length_dropWhile_le)
  also have "\<dots> \<le> length cs"
    by simp
  finally show "((key, repl,
                  dropWhile (\<lambda>x. x \<noteq> LF) (dropWhile isspace (drop (length key) cs))),
                 (key, repl, c # cs)) \<in> measure (\<lambda>(key, repl, text). length text)"
    by simp
qed simp_all

text \<open>
  The words \<open>key: value\<close> are plain text in the pattern and in the replacement when the key
  has only word characters and the value no backslash.
\<close>

definition plain_key :: "string \<Rightarrow> bool" where
  "plain_key key = (key \<noteq> [] \<and> list_all isword key)"

definition plain_value :: "string \<Rightarrow> bool" where
  "plain_value v = list_all (\<lambda>c. c \<noteq> CHR 0x5C) v"

text \<open>
  \<open>content.replace(old, new)\<close>: every occurrence of \<open>old\<close>, from left to right and
  without overlap, becomes \<open>new\<close>.  An empty \<open>old\<close> occurs before every character and at
  the end.
\<close>

function replace_from :: "string \<Rightarrow> string \<Rightarrow> string \<Rightarrow> string" where
  "replace_from old new [] = []"
| "replace_from old new (c # cs) =
     (if old \<noteq> [] \<and> prefix old (c # cs)
      then new @ replace_from old new (drop (length old - 1) cs)
      else c # replace_from old new cs)"
  by pat_completeness auto
termination
  by (relation "measure (\<lambda>(old, new, text). length text)") auto

definition py_replace :: "string \<Rightarrow> string \<Rightarrow> string \<Rightarrow> string" where
  "py_replace content old new =
     (if old = [] then new @ concat (map (\<lambda>c. c # new) content)
      else replace_from old new content)"

subsection \<open>True division and \<open>int()\<close>\<close>

text \<open>
  \<open>words / 200\<close> divides two Python integers into a \<open>float\<close>: the binary64 number
  nearest to the exact quotient, a tie going to the even significand.  A \<open>float\<close> is
  modelled by the rational it denotes.  A word count is the length of a list, below
  \<open>2 ^ 63\<close>, so the quotient is zero or in binary64's normal range, and the significand
  has 53 bits: overflow and subnormal numbers do not arise and are not modelled.  The
  script divides by the constant 200 only, never by zero.
\<close>

definition round_half_even :: "rat \<Rightarrow> int" where
  "round_half_even x =
     (let f = \<lfloor>x\<rfloor>; d = x - of_int f
      in if d < 1 / 2 then f
         else if 1 / 2 < d then f + 1
         else if even f then f else f + 1)"

text \<open>\<open>int.bit_length()\<close>: the number of binary digits of a natural number.\<close>

fun bit_length :: "nat \<Rightarrow> nat" where
  "bit_length n = (if n = 0 then 0 else Suc (bit_length (n div 2)))"

declare bit_length.simps [simp del]

text \<open>
  The binary exponent of a positive quotient \<open>a / b\<close>: the \<open>n\<close> with
  \<open>2 ^ n \<le> a / b < 2 ^ (n + 1)\<close>.
\<close>

definition quotient_exponent :: "nat \<Rightarrow> nat \<Rightarrow> int" where
  "quotient_exponent a b =
     (let d = int (bit_length a) - int (bit_length b)
      in if (2 :: rat) powi d \<le> of_nat a / of_nat b then d else d - 1)"

definition py_truediv :: "nat \<Rightarrow> nat \<Rightarrow> rat" where
  "py_truediv a b =
     (if a = 0 then 0
      else let q = of_nat a / of_nat b;
               e = quotient_exponent a b - 52
           in of_int (round_half_even (q / 2 powi e)) * 2 powi e)"

text \<open>\<open>int(x)\<close> of a \<open>float\<close>: rounding toward zero.\<close>

definition py_int :: "rat \<Rightarrow> int" where
  "py_int x = (if 0 \<le> x then \<lfloor>x\<rfloor> else \<lceil>x\<rceil>)"

subsection \<open>\<open>calculate_reading_time\<close>\<close>

definition calculate_reading_time :: "string \<Rightarrow> int" where
  "calculate_reading_time text =
     (let words = length (py_split text)
      in py_int (py_truediv words 200) + 1)"

subsection \<open>Files, exceptions and \<open>get_frontmatter\<close>, \<open>update_frontmatter\<close>\<close>

text \<open>
  The working tree is a map from paths to the text \<open>f.read()\<close> returns; a file that
  \<open>f.write\<close> has written reads back as the text written.  The exceptions
  the script can raise: \<open>subprocess.CalledProcessError\<close> with the command and its return
  code, \<open>OSError\<close> (an \<open>open\<close> of a file that cannot be read, a program that cannot
  be started) with the path, and \<open>IndexError\<close>.
\<close>

type_synonym tree = "string \<rightharpoonup> string"

datatype exn =
    CalledProcessError "string list" int
  | OSError string
  | IndexError

definition get_frontmatter :: "tree \<Rightarrow> string \<Rightarrow> exn + string" where
  "get_frontmatter files filepath =
     (case files filepath of
        None \<Rightarrow> Inl (OSError filepath)
      | Some content \<Rightarrow>
          (case re_search_frontmatter content of
             Some g \<Rightarrow> Inr g
           | None \<Rightarrow> Inr []))"

text \<open>
  The loop over \<open>updates.items()\<close>: one \<open>re.sub\<close> for each key, in the order of the
  dictionary, with the replacement \<open>f'{key}: {value}'\<close>.
\<close>

fun apply_updates :: "(string \<times> string) list \<Rightarrow> string \<Rightarrow> string" where
  "apply_updates [] frontmatter = frontmatter"
| "apply_updates ((key, v) # updates) frontmatter =
     apply_updates updates (re_sub_key key (key @ '': '' @ v) frontmatter)"

text \<open>
  \<open>update_frontmatter\<close> returns the working tree after the call.  A file without a match
  of the frontmatter pattern is not written.
\<close>

definition update_frontmatter :: "tree \<Rightarrow> string \<Rightarrow> (string \<times> string) list \<Rightarrow> exn + tree" where
  "update_frontmatter files filepath updates =
     (case files filepath of
        None \<Rightarrow> Inl (OSError filepath)
      | Some content \<Rightarrow>
          (case re_search_frontmatter content of
             None \<Rightarrow> Inr files
           | Some frontmatter \<Rightarrow>
               Inr (files(filepath \<mapsto>
                      py_replace content frontmatter (apply_updates updates frontmatter)))))"

subsection \<open>The frontmatter dictionary of \<open>main\<close>\<close>

text \<open>
  \<open>re.match(r'(\w+):\s*(.*)', line)\<close>: the longest run of word characters at the start of
  the line, a colon, all the whitespace that follows, and the rest of the line as the value.
\<close>

definition re_match_key_value :: "string \<Rightarrow> (string \<times> string) option" where
  "re_match_key_value line =
     (let key = takeWhile isword line; r = dropWhile isword line
      in if key \<noteq> [] \<and> prefix '':'' r
         then Some (key, takeWhile (\<lambda>x. x \<noteq> LF) (dropWhile isspace (tl r)))
         else None)"

text \<open>\<open>value.strip('"')\<close>: the double quotes at both ends are removed.\<close>

definition strip_quotes :: "string \<Rightarrow> string" where
  "strip_quotes v =
     rev (dropWhile (\<lambda>x. x = CHR 0x22) (rev (dropWhile (\<lambda>x. x = CHR 0x22) v)))"

fun parse_lines :: "(string \<rightharpoonup> string) \<Rightarrow> string list \<Rightarrow> (string \<rightharpoonup> string)" where
  "parse_lines frontmatter [] = frontmatter"
| "parse_lines frontmatter (line # lines) =
     (case re_match_key_value line of
        None \<Rightarrow> parse_lines frontmatter lines
      | Some (key, v) \<Rightarrow> parse_lines (frontmatter(key \<mapsto> strip_quotes v)) lines)"

definition parse_frontmatter :: "string \<Rightarrow> (string \<rightharpoonup> string)" where
  "parse_frontmatter frontmatter_str = parse_lines Map.empty (splitlines frontmatter_str)"

subsection \<open>The staged files\<close>

text \<open>
  The list comprehension of \<open>main\<close> over the lines of \<open>git diff --cached --name-status\<close>:
  of every line that starts with \<open>M\<close> and ends with \<open>.mdx\<close>, the second
  whitespace-separated field; \<open>IndexError\<close> when such a line has one field only.
\<close>

fun second_fields :: "string list \<Rightarrow> exn + string list" where
  "second_fields [] = Inr []"
| "second_fields (line # lines) =
     (if prefix ''M'' line \<and> suffix ''.mdx'' line then
        (case py_split line of
           _ # file # _ \<Rightarrow>
             (case second_fields lines of
                Inl e \<Rightarrow> Inl e
              | Inr files \<Rightarrow> Inr (file # files))
         | _ \<Rightarrow> Inl IndexError)
      else second_fields lines)"

definition staged_files :: "string \<Rightarrow> exn + string list" where
  "staged_files stdout = second_fields (splitlines stdout)"

subsection \<open>The hook's surroundings\<close>

text \<open>
  What the hook reads from outside is a parameter: how the \<open>n\<close>-th process it starts
  ends (its return code and captured output, or not started at all), and what the \<open>n\<close>-th
  call of \<open>uuid4\<close> or \<open>datetime.utcnow().isoformat()\<close> returns.
\<close>

datatype outcome = Exited int string | NotStarted

record env =
  process :: "nat \<Rightarrow> string list \<Rightarrow> outcome"
  uuid4 :: "nat \<Rightarrow> string"
  utcnow :: "nat \<Rightarrow> string"

text \<open>The lines the hook prints, one constructor for each \<open>print\<close> of the script.\<close>

datatype message =
    Checking string
  | AddingId string
  | ModUpdated string
  | FirstRelease string
  | ErrorMsg exn
  | UnexpectedMsg exn

text \<open>
  The state the hook works on: the working tree, the index (the text of each path as last
  added), the lines printed, the processes started so far with their return codes, and the
  number of identifiers and timestamps drawn.  The changes that \<open>git update-index\<close> and the
  lint runner make to the tree and the index themselves are outside the model.
\<close>

record world =
  files :: tree
  staged :: tree
  printed :: "message list"
  invoked :: "(string list \<times> int option) list"
  drawn :: nat

definition print :: "message \<Rightarrow> world \<Rightarrow> world" where
  "print m w = w\<lparr>printed := printed w @ [m]\<rparr>"

text \<open>
  \<open>subprocess.run(argv, check=True)\<close>: the captured output, or the exception raised when
  the program cannot be started or returns a code other than zero.
\<close>

definition run :: "env \<Rightarrow> string list \<Rightarrow> world \<Rightarrow> (exn + string) \<times> world" where
  "run e argv w =
     (case process e (length (invoked w)) argv of
        NotStarted \<Rightarrow>
          (Inl (OSError (hd argv)), w\<lparr>invoked := invoked w @ [(argv, None)]\<rparr>)
      | Exited rc out \<Rightarrow>
          (if rc = 0 then Inr out else Inl (CalledProcessError argv rc),
           w\<lparr>invoked := invoked w @ [(argv, Some rc)]\<rparr>))"

text \<open>\<open>subprocess.run(['git', 'add', file], check=True)\<close>, which stages the file's text.\<close>

definition git_add :: "env \<Rightarrow> string \<Rightarrow> world \<Rightarrow> exn option \<times> world" where
  "git_add e file w =
     (case run e [''git'', ''add'', file] w of
        (Inl x, w') \<Rightarrow> (Some x, w')
      | (Inr out, w') \<Rightarrow> (None, w'\<lparr>staged := (staged w')(file := files w' file)\<rparr>))"

text \<open>
  \<open>update_frontmatter(file, updates)\<close> followed by \<open>git add\<close>, as each rewrite of
  \<open>main\<close> does.
\<close>

definition update_and_add ::
  "env \<Rightarrow> string \<Rightarrow> (string \<times> string) list \<Rightarrow> world \<Rightarrow> exn option \<times> world" where
  "update_and_add e file updates w =
     (case update_frontmatter (files w) file updates of
        Inl x \<Rightarrow> (Some x, w)
      | Inr files' \<Rightarrow> git_add e file (w\<lparr>files := files'\<rparr>))"

text \<open>\<open>str\<close> of an integer, as the f-string writes the reading time.\<close>

fun str_nat :: "nat \<Rightarrow> string" where
  "str_nat n =
     (if n < 10 then [char_of (48 + n)] else str_nat (n div 10) @ [char_of (48 + n mod 10)])"

declare str_nat.simps [simp del]

definition str_int :: "int \<Rightarrow> string" where
  "str_int i = (if i < 0 then CHR ''-'' # str_nat (nat (- i)) else str_nat (nat i))"

subsection \<open>\<open>main\<close>\<close>

text \<open>The three rewrites of one file, in the order of the loop body.\<close>

definition id_step ::
  "env \<Rightarrow> string \<Rightarrow> (string \<rightharpoonup> string) \<Rightarrow> world \<Rightarrow> exn option \<times> world" where
  "id_step e file frontmatter w =
     (if frontmatter ''id'' = None then
        (let new_id = uuid4 e (drawn w);
             w1 = print (AddingId file) (w\<lparr>drawn := Suc (drawn w)\<rparr>)
         in update_and_add e file [(''id'', new_id)] w1)
      else (None, w))"

definition draft_step ::
  "env \<Rightarrow> string \<Rightarrow> (string \<rightharpoonup> string) \<Rightarrow> world \<Rightarrow> exn option \<times> world" where
  "draft_step e file frontmatter w =
     (if frontmatter ''draft'' = Some ''false'' then
        (let w1 = print (ModUpdated file) w;
             now = utcnow e (drawn w1) @ ''Z'';
             w2 = w1\<lparr>drawn := Suc (drawn w1)\<rparr>
         in update_and_add e file [(''modDatetime'', now)] w2)
      else if frontmatter ''draft'' = Some ''first'' then
        (let w1 = print (FirstRelease file) w
         in update_and_add e file [(''draft'', ''false''), (''modDatetime'', [])] w1)
      else (None, w))"

definition reading_time_step :: "env \<Rightarrow> string \<Rightarrow> world \<Rightarrow> exn option \<times> world" where
  "reading_time_step e file w =
     (case files w file of
        None \<Rightarrow> (Some (OSError file), w)
      | Some content \<Rightarrow>
          (let reading_time = calculate_reading_time content
           in update_and_add e file [(''readingTime'', str_int reading_time)] w))"

definition process_file :: "env \<Rightarrow> string \<Rightarrow> world \<Rightarrow> exn option \<times> world" where
  "process_file e file w =
     (let w0 = print (Checking file) w
      in case get_frontmatter (files w0) file of
           Inl x \<Rightarrow> (Some x, w0)
         | Inr frontmatter_str \<Rightarrow>
             (let frontmatter = parse_frontmatter frontmatter_str
              in case id_step e file frontmatter w0 of
                   (Some x, w1) \<Rightarrow> (Some x, w1)
                 | (None, w1) \<Rightarrow>
                     (case draft_step e file frontmatter w1 of
                        (Some x, w2) \<Rightarrow> (Some x, w2)
                      | (None, w2) \<Rightarrow> reading_time_step e file w2)))"

text \<open>The \<open>for\<close> loop: an exception ends it.\<close>

fun process_files :: "env \<Rightarrow> string list \<Rightarrow> world \<Rightarrow> exn option \<times> world" where
  "process_files e [] w = (None, w)"
| "process_files e (file # rest) w =
     (case process_file e file w of
        (Some x, w') \<Rightarrow> (Some x, w')
      | (None, w') \<Rightarrow> process_files e rest w')"

text \<open>The body of the \<open>try\<close> statement.\<close>

definition main_body :: "env \<Rightarrow> world \<Rightarrow> exn option \<times> world" where
  "main_body e w =
     (case run e [''git'', ''diff'', ''--cached'', ''--name-status''] w of
        (Inl x, w1) \<Rightarrow> (Some x, w1)
      | (Inr stdout, w1) \<Rightarrow>
          (case staged_files stdout of
             Inl x \<Rightarrow> (Some x, w1)
           | Inr fs \<Rightarrow>
               (case process_files e fs w1 of
                  (Some x, w2) \<Rightarrow> (Some x, w2)
                | (None, w2) \<Rightarrow>
                    (case run e [''git'', ''update-index'', ''--again''] w2 of
                       (Inl x, w3) \<Rightarrow> (Some x, w3)
                     | (Inr out, w3) \<Rightarrow>
                         (case run e [''bun'', ''run'', ''lint-staged''] w3 of
                            (Inl x, w4) \<Rightarrow> (Some x, w4)
                          | (Inr out', w4) \<Rightarrow> (None, w4))))))"

text \<open>
  \<open>main\<close>: the two \<open>except\<close> clauses print the exception, and \<open>main\<close> returns the state
  it has reached.
\<close>

definition main :: "env \<Rightarrow> world \<Rightarrow> world" where
  "main e w =
     (case main_body e w of
        (None, w') \<Rightarrow> w'
      | (Some (CalledProcessError argv rc), w') \<Rightarrow>
          print (ErrorMsg (CalledProcessError argv rc)) w'
      | (Some x, w') \<Rightarrow> print (UnexpectedMsg x) w')"

subsection \<open>Sample inputs\<close>

text \<open>
  Texts are written line by line: \<open>unlines\<close> ends every line with a newline.  The sample
  surroundings: \<open>git diff\<close> prints the given text, every process returns 0, and fixed
  values stand for the identifier and the time.  The sample state has one file, staged as
  it is, and nothing printed or started yet.
\<close>

definition unlines :: "string list \<Rightarrow> string" where
  "unlines ls = concat (map (\<lambda>l. l @ [LF]) ls)"

abbreviation TAB :: char where "TAB \<equiv> CHR 0x09"

definition sample_env :: "string \<Rightarrow> env" where
  "sample_env stdout =
     \<lparr>process = (\<lambda>n argv. Exited 0 (if n = 0 then stdout else [])),
      uuid4 = (\<lambda>n. ''1b4e28ba-2fa1-41d2-883f-0016d3cca427''),
      utcnow = (\<lambda>n. ''2024-05-01T12:00:00.000000'')\<rparr>"

definition sample_world :: "string \<Rightarrow> string \<Rightarrow> world" where
  "sample_world file content =
     \<lparr>files = [file \<mapsto> content], staged = [file \<mapsto> content],
      printed = [], invoked = [], drawn = 0\<rparr>"

subsection \<open>The log of processes\<close>

text \<open>
  The exception \<open>subprocess.run\<close> raises for a process with the given end (no return
  code: not started), and the runs that raise none.  A step of the hook keeps the log when
  it only appends to it and either every process it started returned 0, or the last one
  did not and the step raises that process's exception.
\<close>

definition process_failure :: "string list \<Rightarrow> int option \<Rightarrow> exn" where
  "process_failure argv rc =
     (case rc of None \<Rightarrow> OSError (hd argv) | Some n \<Rightarrow> CalledProcessError argv n)"

definition succeeded :: "string list \<times> int option \<Rightarrow> bool" where
  "succeeded call = (snd call = Some 0)"

definition traced :: "world \<Rightarrow> exn option \<times> world \<Rightarrow> bool" where
  "traced w res =
     (let new = drop (length (invoked w)) (invoked (snd res))
      in prefix (invoked w) (invoked (snd res))
         \<and> (list_all succeeded new
            \<or> (new \<noteq> [] \<and> list_all succeeded (butlast new)
               \<and> fst res = Some (process_failure (fst (last new)) (snd (last new))))))"

section \<open>Properties\<close>

subsection \<open>Rounding and the binary exponent\<close>

lemma bit_length_bounds:
  "0 < n \<Longrightarrow> 2 ^ (bit_length n - 1) \<le> n \<and> n < 2 ^ bit_length n"
proof (induction n rule: bit_length.induct)
  case (1 n)
  show ?case
  proof (cases "n div 2 = 0")
    case True
    with "1.prems" have "n = 1" by auto
    then show ?thesis by (simp add: bit_length.simps)
  next
    case False
    then have pos: "0 < n div 2" by simp
    from "1.IH" [OF _ pos] "1.prems"
    have ih: "2 ^ (bit_length (n div 2) - 1) \<le> n div 2" "n div 2 < 2 ^ bit_length (n div 2)"
      by auto
    have bl: "bit_length n = Suc (bit_length (n div 2))"
      using "1.prems" by (subst bit_length.simps) simp
    have blpos: "0 < bit_length (n div 2)"
      using pos by (subst bit_length.simps) simp
    have "2 ^ (bit_length n - 1) = 2 * 2 ^ (bit_length (n div 2) - 1)"
      using blpos bl by (cases "bit_length (n div 2)") simp_all
    also have "\<dots> \<le> 2 * (n div 2)" using ih(1) by simp
    also have "\<dots> \<le> n" by simp
    finally have lo: "2 ^ (bit_length n - 1) \<le> n" .
    have "n < 2 * (n div 2) + 2" by presburger
    also have "\<dots> \<le> 2 * 2 ^ bit_length (n div 2)" using ih(2) by simp
    finally have hi: "n < 2 ^ bit_length n" using bl by simp
    from lo hi show ?thesis by simp
  qed
qed

lemma bit_length_pos: "0 < n \<Longrightarrow> 0 < bit_length n"
  by (subst bit_length.simps) simp

lemma round_half_even_ge_floor: "\<lfloor>x\<rfloor> \<le> round_half_even x"
  by (simp add: round_half_even_def Let_def)

lemma round_half_even_upper: "of_int (round_half_even x) \<le> x + 1 / 2"
proof -
  define f where "f = \<lfloor>x\<rfloor>"
  have lo: "of_int f \<le> x" unfolding f_def by simp
  have cases: "round_half_even x = f \<or> (round_half_even x = f + 1 \<and> 1 / 2 \<le> x - of_int f)"
    unfolding round_half_even_def Let_def f_def by auto
  then show ?thesis
  proof
    assume "round_half_even x = f"
    with lo show ?thesis by simp
  next
    assume "round_half_even x = f + 1 \<and> 1 / 2 \<le> x - of_int f"
    then show ?thesis by simp
  qed
qed

lemma quotient_exponent_bounds:
  assumes a: "0 < a" and b: "0 < b"
  shows "(2 :: rat) powi quotient_exponent a b \<le> of_nat a / of_nat b"
    and "of_nat a / of_nat b < (2 :: rat) powi (quotient_exponent a b + 1)"
proof -
  define la where "la = bit_length a"
  define lb where "lb = bit_length b"
  define d where "d = int la - int lb"
  define q :: rat where "q = of_nat a / of_nat b"
  have la: "0 < la" and lb: "0 < lb"
    using a b by (simp_all add: la_def lb_def bit_length_pos)
  from bit_length_bounds [OF a] have "2 ^ (la - 1) \<le> a" "a < 2 ^ la"
    by (simp_all add: la_def)
  then have a_lo: "(2 :: rat) ^ (la - 1) \<le> of_nat a" and a_hi: "of_nat a < (2 :: rat) ^ la"
    by (metis of_nat_le_iff of_nat_numeral of_nat_power, metis of_nat_less_iff of_nat_numeral of_nat_power)
  from bit_length_bounds [OF b] have "2 ^ (lb - 1) \<le> b" "b < 2 ^ lb"
    by (simp_all add: lb_def)
  then have b_lo: "(2 :: rat) ^ (lb - 1) \<le> of_nat b" and b_hi: "of_nat b < (2 :: rat) ^ lb"
    by (metis of_nat_le_iff of_nat_numeral of_nat_power, metis of_nat_less_iff of_nat_numeral of_nat_power)
  have bpos: "(0 :: rat) < of_nat b" using b by simp
  have "(2 :: rat) powi (d - 1) = 2 powi (int (la - 1) - int lb)"
    using la by (simp add: d_def algebra_simps)
  also have "\<dots> = 2 ^ (la - 1) / 2 ^ lb"
    by (simp add: power_int_diff)
  also have "\<dots> < of_nat a / of_nat b"
    using a_lo b_hi bpos by (intro frac_less2) simp_all
  finally have low: "(2 :: rat) powi (d - 1) < q" by (simp add: q_def)
  have "q < 2 ^ la / 2 ^ (lb - 1)"
    unfolding q_def using a_hi b_lo by (intro frac_less) simp_all
  also have "\<dots> = 2 powi (int la - int (lb - 1))"
    by (simp add: power_int_diff)
  also have "\<dots> = 2 powi (d + 1)"
    using lb by (simp add: d_def algebra_simps)
  finally have high: "q < 2 powi (d + 1)" .
  have qe: "quotient_exponent a b = (if (2 :: rat) powi d \<le> q then d else d - 1)"
    by (simp add: quotient_exponent_def Let_def d_def la_def lb_def q_def)
  show "(2 :: rat) powi quotient_exponent a b \<le> of_nat a / of_nat b"
    using low by (simp add: qe q_def [symmetric])
  show "of_nat a / of_nat b < (2 :: rat) powi (quotient_exponent a b + 1)"
    using high by (simp add: qe q_def [symmetric])
qed

lemma py_truediv_nonneg: "0 \<le> py_truediv a b"
proof (cases "a = 0")
  case True
  then show ?thesis by (simp add: py_truediv_def)
next
  case False
  define q :: rat where "q = of_nat a / of_nat b"
  define s :: rat where "s = 2 powi (quotient_exponent a b - 52)"
  have s: "0 < s" by (simp add: s_def)
  have "0 \<le> q / s" using s by (simp add: q_def)
  then have "0 \<le> \<lfloor>q / s\<rfloor>" by simp
  also have "\<dots> \<le> round_half_even (q / s)" by (rule round_half_even_ge_floor)
  finally have "0 \<le> of_int (round_half_even (q / s)) * s"
    using s by simp
  with False show ?thesis
    by (simp add: py_truediv_def Let_def q_def s_def)
qed

lemma py_int_truediv_200:
  assumes small: "a < 200 * 2 ^ 46"
  shows "py_int (py_truediv a 200) = int (a div 200)"
proof (cases "a = 0")
  case True
  then show ?thesis by (simp add: py_truediv_def py_int_def)
next
  case False
  then have a: "0 < a" by simp
  define q :: rat where "q = of_nat a / of_nat 200"
  define n where "n = quotient_exponent a 200"
  define s :: rat where "s = 2 powi (n - 52)"
  define m where "m = round_half_even (q / s)"
  define k where "k = int (a div 200)"
  have r: "py_truediv a 200 = of_int m * s"
    using False by (simp add: py_truediv_def Let_def q_def s_def m_def n_def)
  have s: "0 < s" by (simp add: s_def)
  have "of_nat a < (of_nat (200 * 2 ^ 46) :: rat)"
    using small by (simp only: of_nat_less_iff)
  then have q_hi: "q < 2 powi 46" by (simp add: q_def)
  have "(2 :: rat) powi n \<le> q"
    unfolding n_def q_def by (rule quotient_exponent_bounds(1) [OF a]) simp
  with q_hi have "(2 :: rat) powi n < 2 powi 46" by simp
  then have "n < 46" by (rule power_int_le_imp_less_exp [rotated]) simp_all
  then have e: "n - 52 \<le> - 7" by simp
  have "s \<le> 2 powi (- 7)"
    unfolding s_def using e by (intro power_int_increasing) simp_all
  then have s_hi: "s \<le> 1 / 128" by (simp add: power_int_minus_divide)
  have k: "k = \<lfloor>q\<rfloor>"
    unfolding k_def q_def by (simp only: floor_divide_of_nat_eq)
  have k_lo: "of_int k \<le> q" by (simp add: k)
  have amod: "of_nat a = (200 :: rat) * of_nat (a div 200) + of_nat (a mod 200)"
    by (metis of_nat_add of_nat_mult of_nat_numeral div_mult_mod_eq mult.commute)
  have "a mod 200 \<le> 199" by simp
  then have "(of_nat (a mod 200) :: rat) \<le> of_nat 199" by (simp only: of_nat_le_iff)
  with amod have q_le: "q \<le> of_int k + 199 / 200"
    by (simp add: q_def k_def)
  define K where "K = k * 2 ^ nat (52 - n)"
  have inv: "s * 2 ^ nat (52 - n) = 1"
  proof -
    have "(2 :: rat) ^ nat (52 - n) = 2 powi (52 - n)"
      using e by (simp add: power_int_def)
    then have "s * 2 ^ nat (52 - n) = 2 powi (n - 52) * 2 powi (52 - n)"
      unfolding s_def by simp
    also have "\<dots> = 2 powi ((n - 52) + (52 - n))"
      by (rule power_int_add [symmetric]) simp
    finally show ?thesis by simp
  qed
  have Ks: "of_int K * s = of_int k"
    using inv by (simp add: K_def mult.assoc mult.commute)
  have "of_int K = of_int k / s"
    using Ks s by (simp add: field_simps)
  also have "\<dots> \<le> q / s"
    using k_lo s by (simp add: divide_right_mono)
  finally have "K \<le> \<lfloor>q / s\<rfloor>" by (simp add: le_floor_iff)
  also have "\<dots> \<le> m" unfolding m_def by (rule round_half_even_ge_floor)
  finally have "of_int K * s \<le> of_int m * s"
    using s by simp
  then have lower: "of_int k \<le> of_int m * s" by (simp add: Ks)
  have "of_int m \<le> q / s + 1 / 2"
    unfolding m_def by (rule round_half_even_upper)
  then have "of_int m * s \<le> (q / s + 1 / 2) * s"
    using s by (simp only: mult_le_cancel_right_pos)
  also have "\<dots> = q + s / 2"
    using s by (simp add: field_simps)
  also have "\<dots> < of_int k + 1"
    using q_le s_hi by simp
  finally have upper: "of_int m * s < of_int k + 1" .
  have nonneg: "0 \<le> of_int m * s"
    using lower by (simp add: k_def order_trans [OF _ lower])
  have "\<lfloor>of_int m * s\<rfloor> = k"
    using lower upper by (intro floor_unique) simp_all
  with nonneg show ?thesis
    by (simp add: r py_int_def k_def)
qed

lemma split_from_word_space:
  "split_from [] (CHR ''a'' # CHR '' '' # rest) = ''a'' # split_from [] rest"
  by (simp add: isspace_def)

lemma py_split_replicate:
  "py_split (concat (replicate n ''a '')) = replicate n ''a''"
  unfolding py_split_def
proof (induction n)
  case 0
  show ?case by simp
next
  case (Suc n)
  then show ?case by (simp add: split_from_word_space del: split_from.simps)
qed

lemma py_truediv_large:
  "py_truediv 14073748835532999 200 = 70368744177665"
proof -
  define a :: nat where "a = 14073748835532999"
  define q :: rat where "q = of_nat a / of_nat 200"
  define n where "n = quotient_exponent a 200"
  have a: "0 < a" by (simp add: a_def)
  have q: "q = 14073748835532999 / 200" by (simp add: q_def a_def)
  have lo: "(2 :: rat) powi n \<le> q" and hi: "q < 2 powi (n + 1)"
    unfolding n_def q_def by (rule quotient_exponent_bounds [OF a], simp)+
  have "q < 2 powi 47" by (simp add: q)
  with lo have "(2 :: rat) powi n < 2 powi 47" by (rule le_less_trans)
  then have n1: "n < 47" by (rule power_int_le_imp_less_exp [rotated]) simp_all
  have "(2 :: rat) powi 46 \<le> q" by (simp add: q)
  with hi have "(2 :: rat) powi 46 < 2 powi (n + 1)" by (rule le_less_trans [rotated])
  then have n2: "46 < n + 1"
  proof (rule power_int_le_imp_less_exp [rotated])
    show "0 \<le> n + 1"
    proof (rule ccontr)
      assume "\<not> 0 \<le> n + 1"
      then have "n + 1 \<le> 0" by simp
      then have "(2 :: rat) powi (n + 1) \<le> 2 powi 0"
        by (intro power_int_increasing) simp_all
      with hi have "q < 1" by simp
      then show False by (simp add: q)
    qed
  qed simp
  from n1 n2 have n: "n = 46" by simp
  have "py_truediv a 200 = of_int (round_half_even (q / 2 powi (n - 52))) * 2 powi (n - 52)"
    using a by (simp add: py_truediv_def Let_def q_def n_def)
  also have "\<dots> = of_int (round_half_even (112589990684263992 / 25)) / 64"
    by (simp add: n q power_int_minus_divide)
  also have "\<dots> = 70368744177665"
  proof -
    have "\<lfloor>(112589990684263992 :: rat) / 25\<rfloor> = 4503599627370559"
      by (rule floor_unique) simp_all
    then have "round_half_even (112589990684263992 / 25) = 4503599627370560"
      by (simp add: round_half_even_def Let_def)
    then show ?thesis by simp
  qed
  finally show ?thesis by (simp add: a_def)
qed

subsection \<open>The reading time\<close>

text \<open>
  Claim C10: for every text, the empty one too, \<open>calculate_reading_time\<close> returns a value
  of at least 1.
\<close>

theorem calculate_reading_time_ge_1: "1 \<le> calculate_reading_time text"
proof -
  have "0 \<le> py_truediv (length (py_split text)) 200"
    by (rule py_truediv_nonneg)
  then have "0 \<le> py_int (py_truediv (length (py_split text)) 200)"
    by (simp add: py_int_def)
  then show ?thesis
    by (simp add: calculate_reading_time_def Let_def)
qed

theorem calculate_reading_time_ge_1_witness: "1 \<le> calculate_reading_time []"
  by (rule calculate_reading_time_ge_1)

text \<open>
  Claim C4: for every input text, \<open>calculate_reading_time\<close> returns exactly
  \<open>floor (wordCount / 200) + 1\<close>, the word count being the number of
  whitespace-separated words of the text.  The texts of the model are lists without a bound
  on their length; the texts the function can be given are those a machine holds in memory,
  and the hypothesis covers all of them: a text of \<open>200 * 2 ^ 46\<close> words has more than
  \<open>2 ^ 54\<close> characters, and \<open>text.split()\<close> would need a list of more than \<open>2 ^ 53\<close>
  references before the division runs.
\<close>

theorem calculate_reading_time_floor:
  assumes "length (py_split text) < 200 * 2 ^ 46"
  shows "calculate_reading_time text = int (length (py_split text) div 200) + 1"
  using py_int_truediv_200 [OF assms]
  by (simp add: calculate_reading_time_def Let_def)

theorem calculate_reading_time_floor_witness:
  "length (py_split ''one two  three'') < 200 * 2 ^ 46
   \<and> calculate_reading_time ''one two  three'' = 1"
proof -
  have words: "py_split ''one two  three'' = [''one'', ''two'', ''three'']"
    by code_simp
  have small: "length (py_split ''one two  three'') < 200 * 2 ^ 46"
    by (simp add: words)
  from calculate_reading_time_floor [OF small] small show ?thesis
    by (simp add: words)
qed

text \<open>
  Why the bound stands in the hypothesis: the division is a \<open>float\<close> division, and in the
  model, at a list of \<open>200 * 2 ^ 46 + 199\<close> words (which no memory holds), the exact
  quotient ends in \<open>.995\<close>, the nearest \<open>float\<close> is the next whole number, and the value
  is one more than \<open>floor (wordCount / 200) + 1\<close>.
\<close>

lemma calculate_reading_time_beyond_bound:
  "length (py_split (concat (replicate 14073748835532999 ''a ''))) = 14073748835532999
   \<and> int (14073748835532999 div 200) + 1 = 70368744177665
   \<and> calculate_reading_time (concat (replicate 14073748835532999 ''a '')) = 70368744177666"
proof -
  have words: "length (py_split (concat (replicate 14073748835532999 ''a ''))) = 14073748835532999"
    by (simp only: py_split_replicate length_replicate)
  have "py_int (py_truediv 14073748835532999 200) = 70368744177665"
    by (simp add: py_truediv_large py_int_def)
  then have "calculate_reading_time (concat (replicate 14073748835532999 ''a '')) = 70368744177666"
    by (simp add: calculate_reading_time_def Let_def words)
  with words show ?thesis by simp
qed

subsection \<open>The frontmatter pattern\<close>

lemma delim_prefix_short:
  "prefix delim (c # cs @ delim @ rest) \<Longrightarrow> prefix delim (c # cs @ ''---'')"
proof (cases cs)
  case Nil
  assume "prefix delim (c # cs @ delim @ rest)"
  with Nil show ?thesis by (simp add: delim_def)
next
  case (Cons c2 cs2)
  assume p: "prefix delim (c # cs @ delim @ rest)"
  show ?thesis
  proof (cases cs2)
    case Nil
    with Cons p show ?thesis by (simp add: delim_def)
  next
    case (Cons c3 cs3)
    note c3 = Cons
    show ?thesis
    proof (cases cs3)
      case Nil
      with c3 \<open>cs = c2 # cs2\<close> p show ?thesis by (simp add: delim_def)
    next
      case (Cons c4 cs4)
      with c3 \<open>cs = c2 # cs2\<close> p show ?thesis by (auto simp: delim_def)
    qed
  qed
qed

lemma lazy_group_first:
  "\<not> sublist delim (body @ ''---'') \<Longrightarrow>
   lazy_group g (body @ delim @ rest) = Some (rev g @ body)"
proof (induction body arbitrary: g)
  case Nil
  show ?case by (simp add: delim_def)
next
  case (Cons c cs)
  from Cons.prems have np: "\<not> prefix delim (c # cs @ ''---'')"
    and ns: "\<not> sublist delim (cs @ ''---'')"
    by (simp_all add: sublist_Cons_right)
  from np have "\<not> prefix delim (c # cs @ delim @ rest)"
    using delim_prefix_short by blast
  then show ?case using Cons.IH [OF ns] by simp
qed

lemma lazy_group_Some:
  "lazy_group g s = Some r \<Longrightarrow> \<exists>body rest. s = body @ delim @ rest \<and> r = rev g @ body"
proof (induction s arbitrary: g)
  case Nil
  then show ?case by simp
next
  case (Cons c cs)
  show ?case
  proof (cases "prefix delim (c # cs)")
    case True
    then obtain rest where "c # cs = delim @ rest" by (auto simp: prefix_def)
    moreover from True Cons.prems have "r = rev g" by simp
    ultimately have "c # cs = [] @ delim @ rest \<and> r = rev g @ []" by simp
    then show ?thesis by blast
  next
    case False
    with Cons.prems have "lazy_group (c # g) cs = Some r" by simp
    from Cons.IH [OF this] obtain body rest
      where "cs = body @ delim @ rest" "r = rev (c # g) @ body" by blast
    then have "c # cs = (c # body) @ delim @ rest \<and> r = rev g @ (c # body)" by simp
    then show ?thesis by blast
  qed
qed

lemma lazy_group_finds: "lazy_group g (body @ delim @ rest) \<noteq> None"
proof (induction body arbitrary: g)
  case Nil
  show ?case by (simp add: delim_def)
next
  case (Cons c cs)
  then show ?case by simp
qed

lemma re_search_frontmatter_delim:
  "lazy_group [] s = Some g \<Longrightarrow> re_search_frontmatter (delim @ s) = Some g"
  by (simp add: delim_def)

lemma re_search_frontmatter_first:
  assumes "\<not> sublist delim (pre @ ''---'')" and "\<not> sublist delim (body @ ''---'')"
  shows "re_search_frontmatter (pre @ delim @ body @ delim @ rest) = Some body"
  using assms(1)
proof (induction pre)
  case Nil
  have "lazy_group [] (body @ delim @ rest) = Some body"
    using lazy_group_first [OF assms(2), of "[]" rest] by simp
  then show ?case by (simp add: re_search_frontmatter_delim)
next
  case (Cons c cs)
  from Cons.prems have np: "\<not> prefix delim (c # cs @ ''---'')"
    and ns: "\<not> sublist delim (cs @ ''---'')"
    by (simp_all add: sublist_Cons_right)
  from np have "\<not> prefix delim (c # cs @ delim @ body @ delim @ rest)"
    using delim_prefix_short by blast
  then show ?case using Cons.IH [OF ns] by simp
qed

lemma re_search_frontmatter_Some:
  "re_search_frontmatter s = Some g \<Longrightarrow> \<exists>pre rest. s = pre @ delim @ g @ delim @ rest"
proof (induction s)
  case Nil
  then show ?case by simp
next
  case (Cons c cs)
  show ?case
  proof (cases "prefix delim (c # cs) \<and> lazy_group [] (drop (length delim) (c # cs)) \<noteq> None")
    case True
    then obtain r where r: "lazy_group [] (drop (length delim) (c # cs)) = Some r" by blast
    with True Cons.prems have "r = g" by simp
    from lazy_group_Some [OF r] obtain body rest
      where d: "drop (length delim) (c # cs) = body @ delim @ rest" and "r = body" by auto
    from True have "c # cs = delim @ drop (length delim) (c # cs)"
      by (auto simp: prefix_def)
    with d \<open>r = g\<close> \<open>r = body\<close> have "c # cs = [] @ delim @ g @ delim @ rest" by simp
    then show ?thesis by blast
  next
    case False
    with Cons.prems have "re_search_frontmatter cs = Some g"
      by (auto split: if_splits option.splits)
    from Cons.IH [OF this] obtain pre rest where "cs = pre @ delim @ g @ delim @ rest" by blast
    then have "c # cs = (c # pre) @ delim @ g @ delim @ rest" by simp
    then show ?thesis by blast
  qed
qed

subsection \<open>\<open>get_frontmatter\<close>\<close>

text \<open>
  Claim C5, amended: \<open>get_frontmatter\<close> returns the text between the first occurrence of
  the delimiter \<open>---\n\<close> in the file, wherever in the document it stands, and the next
  occurrence of the delimiter after it; it returns the empty string when the file does not
  hold two delimiters one after the other.  (The first conjunct: the delimiter occurs
  neither before the end of the opening one nor before the end of the closing one.)
\<close>

theorem get_frontmatter_first_block:
  assumes "tr filepath = Some content"
  shows "(content = pre @ delim @ body @ delim @ rest
            \<and> \<not> sublist delim (pre @ ''---'') \<and> \<not> sublist delim (body @ ''---'')
          \<longrightarrow> get_frontmatter tr filepath = Inr body)
         \<and> ((\<forall>p b r. content \<noteq> p @ delim @ b @ delim @ r)
          \<longrightarrow> get_frontmatter tr filepath = Inr [])"
proof (intro conjI impI)
  assume "content = pre @ delim @ body @ delim @ rest
            \<and> \<not> sublist delim (pre @ ''---'') \<and> \<not> sublist delim (body @ ''---'')"
  then have "re_search_frontmatter content = Some body"
    by (simp add: re_search_frontmatter_first)
  with assms show "get_frontmatter tr filepath = Inr body"
    by (simp add: get_frontmatter_def)
next
  assume none: "\<forall>p b r. content \<noteq> p @ delim @ b @ delim @ r"
  have "re_search_frontmatter content = None"
  proof (cases "re_search_frontmatter content")
    case None
    then show ?thesis .
  next
    case (Some g)
    from re_search_frontmatter_Some [OF this] none show ?thesis by blast
  qed
  with assms show "get_frontmatter tr filepath = Inr []"
    by (simp add: get_frontmatter_def)
qed

text \<open>
  The theorem at two files: one whose block follows a heading, and one without a delimiter.
\<close>

theorem get_frontmatter_first_block_witness:
  "get_frontmatter
     [''post.mdx'' \<mapsto> unlines [''# Title'', ''---'', ''key: v'', ''---'', ''words'']]
     ''post.mdx'' = Inr (unlines [''key: v''])
   \<and> get_frontmatter [''post.mdx'' \<mapsto> unlines [''# Title'', ''words'']] ''post.mdx'' = Inr []"
proof -
  let ?c = "unlines [''# Title'', ''---'', ''key: v'', ''---'', ''words'']"
  let ?d = "unlines [''# Title'', ''words'']"
  have split: "?c = unlines [''# Title''] @ delim @ unlines [''key: v''] @ delim @ unlines [''words'']"
    by (simp add: unlines_def delim_def)
  have pre: "\<not> sublist delim (unlines [''# Title''] @ ''---'')"
    by code_simp
  have body: "\<not> sublist delim (unlines [''key: v''] @ ''---'')"
    by code_simp
  have one: "get_frontmatter [''post.mdx'' \<mapsto> ?c] ''post.mdx'' = Inr (unlines [''key: v''])"
    using get_frontmatter_first_block
            [of "[''post.mdx'' \<mapsto> ?c]" "''post.mdx''" ?c "unlines [''# Title'']"
                "unlines [''key: v'']" "unlines [''words'']"]
          split pre body
    by simp
  have "\<not> sublist delim ?d"
    by code_simp
  then have none: "\<forall>p b r. ?d \<noteq> p @ delim @ b @ delim @ r"
    by (metis sublist_appendI)
  have two: "get_frontmatter [''post.mdx'' \<mapsto> ?d] ''post.mdx'' = Inr []"
    using get_frontmatter_first_block [of "[''post.mdx'' \<mapsto> ?d]" "''post.mdx''" ?d] none
    by simp
  from one two show ?thesis by simp
qed

text \<open>
  C5 as stated fails at a document that does not start with a delimiter and has two of
  them further down: no block stands at its start, and the result is not the empty string.
\<close>

theorem get_frontmatter_start_counterexample:
  "\<not> prefix delim (unlines [''# Title'', ''---'', ''key: v'', ''---'', ''words''])
   \<and> get_frontmatter
       [''post.mdx'' \<mapsto> unlines [''# Title'', ''---'', ''key: v'', ''---'', ''words'']]
       ''post.mdx'' = Inr (unlines [''key: v''])
   \<and> unlines [''key: v''] \<noteq> []"
  by code_simp

subsection \<open>Substitutions that find nothing\<close>

lemma re_sub_key_no_match:
  "\<not> sublist (key @ '':'') s \<Longrightarrow> re_sub_key key repl s = s"
proof (induction s)
  case Nil
  show ?case by simp
next
  case (Cons c cs)
  from Cons.prems have "\<not> prefix (key @ '':'') (c # cs)" and "\<not> sublist (key @ '':'') cs"
    by (simp_all add: sublist_Cons_right)
  with Cons.IH show ?case by simp
qed

lemma apply_updates_no_match:
  "\<forall>(key, v) \<in> set updates. \<not> sublist (key @ '':'') frontmatter \<Longrightarrow>
   apply_updates updates frontmatter = frontmatter"
proof (induction updates)
  case Nil
  show ?case by simp
next
  case (Cons u us)
  obtain key v where u: "u = (key, v)" by (cases u)
  from Cons.prems u have "\<not> sublist (key @ '':'') frontmatter" by simp
  then have "re_sub_key key (key @ '': '' @ v) frontmatter = frontmatter"
    by (rule re_sub_key_no_match)
  moreover from Cons.prems have "\<forall>(key, v) \<in> set us. \<not> sublist (key @ '':'') frontmatter"
    by simp
  ultimately show ?case using Cons.IH by (simp add: u)
qed

lemma replace_from_same_aux: "new = old \<Longrightarrow> replace_from old new s = s"
proof (induction old new s rule: replace_from.induct)
  case (1 old new)
  show ?case by simp
next
  case (2 old new c cs)
  show ?case
  proof (cases "old \<noteq> [] \<and> prefix old (c # cs)")
    case True
    then obtain rest where rest: "c # cs = old @ rest" by (auto simp: prefix_def)
    with True obtain old' where old: "old = c # old'" by (cases old) auto
    with rest have cs: "cs = old' @ rest" by simp
    have "drop (length old - 1) cs = rest" by (simp add: old cs)
    with 2 True have step: "replace_from old new (drop (length old - 1) cs) = rest" by simp
    have "replace_from old new (c # cs) = new @ replace_from old new (drop (length old - 1) cs)"
      using True by simp
    also have "\<dots> = old @ rest" using step 2(3) by simp
    also have "\<dots> = c # cs" using rest by simp
    finally show ?thesis .
  next
    case False
    with 2 show ?thesis by auto
  qed
qed

lemma replace_from_same: "replace_from old old s = s"
  by (rule replace_from_same_aux) simp

lemma py_replace_same: "py_replace content old old = content"
proof (cases "old = []")
  case True
  have "concat (map (\<lambda>c. [c]) content) = content" by (induction content) simp_all
  with True show ?thesis by (simp add: py_replace_def)
next
  case False
  then show ?thesis by (simp add: py_replace_def replace_from_same)
qed

lemma update_frontmatter_same:
  assumes "tr filepath = Some content"
    and "\<And>frontmatter. re_search_frontmatter content = Some frontmatter \<Longrightarrow>
           apply_updates updates frontmatter = frontmatter"
  shows "update_frontmatter tr filepath updates = Inr tr"
proof (cases "re_search_frontmatter content")
  case None
  with assms(1) show ?thesis by (simp add: update_frontmatter_def)
next
  case (Some frontmatter)
  from assms(2) [OF Some] have "py_replace content frontmatter (apply_updates updates frontmatter) = content"
    by (simp add: py_replace_same)
  moreover have "tr(filepath \<mapsto> content) = tr"
    using assms(1) by (rule map_upd_triv)
  ultimately show ?thesis using assms(1) Some by (simp add: update_frontmatter_def)
qed

subsection \<open>\<open>update_frontmatter\<close> inserts nothing\<close>

text \<open>
  Where the text \<open>key:\<close> of every update occurs nowhere inside the frontmatter block, at
  the start of a line or within one, \<open>update_frontmatter\<close> leaves the file unchanged.
  (Keys and values are those the model of \<open>re.sub\<close> is exact for: keys of word
  characters, values without backslash.)
\<close>

lemma update_frontmatter_inserts_no_key:
  assumes "get_frontmatter tr filepath = Inr frontmatter"
    and "\<forall>(key, v) \<in> set updates.
           plain_key key \<and> plain_value v \<and> \<not> sublist (key @ '':'') frontmatter"
  shows "update_frontmatter tr filepath updates = Inr tr"
proof -
  from assms(1) obtain content where content: "tr filepath = Some content"
    by (auto simp: get_frontmatter_def split: option.splits)
  show ?thesis
  proof (rule update_frontmatter_same)
    show "tr filepath = Some content" by (rule content)
  next
    fix fm
    assume "re_search_frontmatter content = Some fm"
    with assms(1) content have "fm = frontmatter"
      by (simp add: get_frontmatter_def)
    with assms(2) have "\<forall>(key, v) \<in> set updates. \<not> sublist (key @ '':'') fm"
      by auto
    then show "apply_updates updates fm = fm"
      by (rule apply_updates_no_match)
  qed
qed

lemma update_frontmatter_inserts_no_key_example:
  "update_frontmatter
     [''post.mdx'' \<mapsto> unlines [''---'', ''title: Hello'', ''---'', ''words'']]
     ''post.mdx'' [(''id'', ''new'')]
   = Inr [''post.mdx'' \<mapsto> unlines [''---'', ''title: Hello'', ''---'', ''words'']]"
proof -
  let ?t = "[''post.mdx'' \<mapsto> unlines [''---'', ''title: Hello'', ''---'', ''words'']]"
  have fm: "get_frontmatter ?t ''post.mdx'' = Inr (unlines [''title: Hello''])"
    by code_simp
  have "plain_key ''id'' \<and> plain_value ''new''
          \<and> \<not> sublist (''id'' @ '':'') (unlines [''title: Hello''])"
    by code_simp
  then have "\<forall>(key, v) \<in> set [(''id'', ''new'')].
               plain_key key \<and> plain_value v
               \<and> \<not> sublist (key @ '':'') (unlines [''title: Hello''])"
    by simp
  with fm show ?thesis
    by (rule update_frontmatter_inserts_no_key)
qed

text \<open>
  Claim C8 at a file whose block is the line \<open>valid: true\<close>, for the update of \<open>id\<close>:
  no line of the block starts with \<open>id:\<close> and the dictionary of \<open>main\<close> has no
  \<open>id\<close>, yet the pattern \<open>id:\s*.*\<close>, which is not anchored at the start of a line,
  matches within \<open>valid: true\<close>, and the value of the key \<open>valid\<close> is overwritten,
  by \<open>update_frontmatter\<close> alone and by a run of the hook.  The file's content is not left
  unchanged.
\<close>

theorem update_frontmatter_rewrites_other_key:
  "get_frontmatter [''post.mdx'' \<mapsto> unlines [''---'', ''valid: true'', ''---'', ''words'']]
     ''post.mdx''
     = Inr (unlines [''valid: true''])
   \<and> list_all (\<lambda>line. \<not> prefix ''id:'' line) (splitlines (unlines [''valid: true'']))
   \<and> parse_frontmatter (unlines [''valid: true'']) ''id'' = None
   \<and> (case update_frontmatter
              [''post.mdx'' \<mapsto> unlines [''---'', ''valid: true'', ''---'', ''words'']]
              ''post.mdx'' [(''id'', ''new'')] of
         Inl x \<Rightarrow> None
       | Inr t \<Rightarrow> t ''post.mdx'')
     = Some (unlines [''---'', ''valid: new'', ''---'', ''words''])
   \<and> files (main (sample_env (unlines [''M'' @ [TAB] @ ''post.mdx'']))
               (sample_world ''post.mdx''
                  (unlines [''---'', ''valid: true'', ''---'', ''words''])))
       ''post.mdx''
       = Some (unlines [''---'', ''valid: 1b4e28ba-2fa1-41d2-883f-0016d3cca427'', ''---'',
                        ''words''])"
  by code_simp

subsection \<open>Failures of processes\<close>

lemma traced_iff:
  "traced w (r, w') \<longleftrightarrow>
     (\<exists>new. invoked w' = invoked w @ new
        \<and> (list_all succeeded new
           \<or> (\<exists>oks a rc. new = oks @ [(a, rc)] \<and> list_all succeeded oks
                \<and> r = Some (process_failure a rc))))"
proof
  assume t: "traced w (r, w')"
  then obtain new where new: "invoked w' = invoked w @ new"
    by (auto simp: traced_def Let_def prefix_def)
  then have d: "drop (length (invoked w)) (invoked w') = new" by simp
  from t d have "list_all succeeded new
     \<or> (new \<noteq> [] \<and> list_all succeeded (butlast new)
        \<and> r = Some (process_failure (fst (last new)) (snd (last new))))"
    by (simp add: traced_def Let_def)
  then have "list_all succeeded new
     \<or> (\<exists>oks a rc. new = oks @ [(a, rc)] \<and> list_all succeeded oks
          \<and> r = Some (process_failure a rc))"
  proof
    assume "list_all succeeded new"
    then show ?thesis ..
  next
    assume l: "new \<noteq> [] \<and> list_all succeeded (butlast new)
        \<and> r = Some (process_failure (fst (last new)) (snd (last new)))"
    then have "new = butlast new @ [(fst (last new), snd (last new))]" by simp
    with l show ?thesis by blast
  qed
  with new show "\<exists>new. invoked w' = invoked w @ new
        \<and> (list_all succeeded new
           \<or> (\<exists>oks a rc. new = oks @ [(a, rc)] \<and> list_all succeeded oks
                \<and> r = Some (process_failure a rc)))"
    by blast
next
  assume "\<exists>new. invoked w' = invoked w @ new
        \<and> (list_all succeeded new
           \<or> (\<exists>oks a rc. new = oks @ [(a, rc)] \<and> list_all succeeded oks
                \<and> r = Some (process_failure a rc)))"
  then obtain new where new: "invoked w' = invoked w @ new"
    and c: "list_all succeeded new
           \<or> (\<exists>oks a rc. new = oks @ [(a, rc)] \<and> list_all succeeded oks
                \<and> r = Some (process_failure a rc))"
    by blast
  from c show "traced w (r, w')"
  proof
    assume "list_all succeeded new"
    with new show ?thesis by (simp add: traced_def Let_def)
  next
    assume "\<exists>oks a rc. new = oks @ [(a, rc)] \<and> list_all succeeded oks
                \<and> r = Some (process_failure a rc)"
    then obtain oks a rc where "new = oks @ [(a, rc)]" "list_all succeeded oks"
      "r = Some (process_failure a rc)" by blast
    with new show ?thesis by (simp add: traced_def Let_def)
  qed
qed

lemma traced_same: "invoked w' = invoked w \<Longrightarrow> traced w (r, w')"
  by (simp add: traced_iff)

lemma traced_start: "invoked w1 = invoked w \<Longrightarrow> traced w1 res \<Longrightarrow> traced w res"
  by (cases res) (simp add: traced_iff)

lemma traced_then:
  assumes f: "traced w (None, w1)" and g: "traced w1 (r, w2)"
  shows "traced w (r, w2)"
proof -
  from f obtain n1 where n1: "invoked w1 = invoked w @ n1" and ok1: "list_all succeeded n1"
    by (auto simp: traced_iff)
  from g obtain n2 where n2: "invoked w2 = invoked w1 @ n2"
    and c: "list_all succeeded n2
           \<or> (\<exists>oks a rc. n2 = oks @ [(a, rc)] \<and> list_all succeeded oks
                \<and> r = Some (process_failure a rc))"
    by (auto simp: traced_iff)
  have app: "invoked w2 = invoked w @ (n1 @ n2)" using n1 n2 by simp
  from c have "list_all succeeded (n1 @ n2)
           \<or> (\<exists>oks a rc. n1 @ n2 = oks @ [(a, rc)] \<and> list_all succeeded oks
                \<and> r = Some (process_failure a rc))"
  proof
    assume "list_all succeeded n2"
    with ok1 show ?thesis by simp
  next
    assume "\<exists>oks a rc. n2 = oks @ [(a, rc)] \<and> list_all succeeded oks
                \<and> r = Some (process_failure a rc)"
    then obtain oks a rc where "n2 = oks @ [(a, rc)]" "list_all succeeded oks"
      "r = Some (process_failure a rc)" by blast
    with ok1 have "n1 @ n2 = (n1 @ oks) @ [(a, rc)] \<and> list_all succeeded (n1 @ oks)
                \<and> r = Some (process_failure a rc)" by simp
    then show ?thesis by blast
  qed
  with app show ?thesis unfolding traced_iff by blast
qed

lemma run_traced:
  "run e argv w = (res, w') \<Longrightarrow>
     traced w (case res of Inl x \<Rightarrow> Some x | Inr out \<Rightarrow> None, w')"
proof -
  assume r: "run e argv w = (res, w')"
  show ?thesis
  proof (cases "process e (length (invoked w)) argv")
    case NotStarted
    with r have "res = Inl (process_failure argv None)"
      and "invoked w' = invoked w @ [] @ [(argv, None)]"
      by (auto simp: run_def process_failure_def)
    then show ?thesis unfolding traced_iff by (intro exI [of _ "[(argv, None)]"]) auto
  next
    case (Exited rc out)
    show ?thesis
    proof (cases "rc = 0")
      case True
      with Exited r have "res = Inr out" and "invoked w' = invoked w @ [(argv, Some 0)]"
        by (auto simp: run_def)
      then show ?thesis unfolding traced_iff
        by (intro exI [of _ "[(argv, Some 0)]"]) (simp add: succeeded_def)
    next
      case False
      with Exited r have "res = Inl (process_failure argv (Some rc))"
        and "invoked w' = invoked w @ [] @ [(argv, Some rc)]"
        by (auto simp: run_def process_failure_def)
      then show ?thesis unfolding traced_iff by (intro exI [of _ "[(argv, Some rc)]"]) auto
    qed
  qed
qed

lemma git_add_traced: "traced w (git_add e f w)"
proof -
  obtain res w' where r: "run e [''git'', ''add'', f] w = (res, w')"
    by (cases "run e [''git'', ''add'', f] w")
  from run_traced [OF r] show ?thesis
    by (cases res) (simp_all add: git_add_def r traced_iff)
qed

lemma update_and_add_traced: "traced w (update_and_add e f updates w)"
proof (cases "update_frontmatter (files w) f updates")
  case (Inl x)
  then show ?thesis by (simp add: update_and_add_def traced_same)
next
  case (Inr t)
  have "traced (w\<lparr>files := t\<rparr>) (git_add e f (w\<lparr>files := t\<rparr>))"
    by (rule git_add_traced)
  then have "traced w (git_add e f (w\<lparr>files := t\<rparr>))"
    by (rule traced_start [rotated]) simp
  with Inr show ?thesis by (simp add: update_and_add_def)
qed

lemma id_step_traced: "traced w (id_step e f fm w)"
proof (cases "fm ''id'' = None")
  case True
  let ?w1 = "print (AddingId f) (w\<lparr>drawn := Suc (drawn w)\<rparr>)"
  have "traced ?w1 (update_and_add e f [(''id'', uuid4 e (drawn w))] ?w1)"
    by (rule update_and_add_traced)
  then have "traced w (update_and_add e f [(''id'', uuid4 e (drawn w))] ?w1)"
    by (rule traced_start [rotated]) (simp add: print_def)
  with True show ?thesis by (simp add: id_step_def Let_def)
next
  case False
  then show ?thesis by (auto simp: id_step_def traced_same)
qed

lemma draft_step_traced: "traced w (draft_step e f fm w)"
proof -
  consider (published) "fm ''draft'' = Some ''false''"
    | (first) "fm ''draft'' \<noteq> Some ''false''" "fm ''draft'' = Some ''first''"
    | (other) "fm ''draft'' \<noteq> Some ''false''" "fm ''draft'' \<noteq> Some ''first''"
    by blast
  then show ?thesis
  proof cases
    case published
    let ?w1 = "print (ModUpdated f) w"
    let ?w2 = "?w1\<lparr>drawn := Suc (drawn ?w1)\<rparr>"
    let ?u = "[(''modDatetime'', utcnow e (drawn ?w1) @ ''Z'')]"
    have "traced ?w2 (update_and_add e f ?u ?w2)"
      by (rule update_and_add_traced)
    then have "traced w (update_and_add e f ?u ?w2)"
      by (rule traced_start [rotated]) (simp add: print_def)
    with published show ?thesis by (simp add: draft_step_def Let_def)
  next
    case first
    let ?w1 = "print (FirstRelease f) w"
    let ?u = "[(''draft'', ''false''), (''modDatetime'', [])]"
    have "traced ?w1 (update_and_add e f ?u ?w1)"
      by (rule update_and_add_traced)
    then have "traced w (update_and_add e f ?u ?w1)"
      by (rule traced_start [rotated]) (simp add: print_def)
    with first show ?thesis by (simp add: draft_step_def Let_def)
  next
    case other
    then show ?thesis by (simp add: draft_step_def traced_same)
  qed
qed

lemma reading_time_step_traced: "traced w (reading_time_step e f w)"
proof (cases "files w f")
  case None
  then show ?thesis by (simp add: reading_time_step_def traced_same)
next
  case (Some content)
  then show ?thesis
    by (simp add: reading_time_step_def Let_def update_and_add_traced)
qed

lemma process_file_traced: "traced w (process_file e f w)"
proof -
  let ?w0 = "print (Checking f) w"
  have start: "invoked ?w0 = invoked w" by (simp add: print_def)
  show ?thesis
  proof (cases "get_frontmatter (files ?w0) f")
    case (Inl x)
    then show ?thesis by (simp add: process_file_def Let_def traced_same start)
  next
    case (Inr fm_str)
    let ?fm = "parse_frontmatter fm_str"
    obtain r1 w1 where s1: "id_step e f ?fm ?w0 = (r1, w1)"
      by (cases "id_step e f ?fm ?w0")
    have t1: "traced w (r1, w1)"
      using traced_start [OF start id_step_traced [of ?w0 e f ?fm]] by (simp add: s1)
    show ?thesis
    proof (cases r1)
      case (Some x)
      with t1 Inr s1 show ?thesis by (simp add: process_file_def Let_def)
    next
      case None
      obtain r2 w2 where s2: "draft_step e f ?fm w1 = (r2, w2)"
        by (cases "draft_step e f ?fm w1")
      have "traced w1 (r2, w2)"
        using draft_step_traced [of w1 e f ?fm] by (simp add: s2)
      with t1 [unfolded None] have t2: "traced w (r2, w2)" by (rule traced_then)
      show ?thesis
      proof (cases r2)
        case (Some x)
        with t2 Inr s1 s2 None show ?thesis by (simp add: process_file_def Let_def)
      next
        case n2: None
        obtain r3 w3 where s3: "reading_time_step e f w2 = (r3, w3)"
          by (cases "reading_time_step e f w2")
        have "traced w2 (r3, w3)"
          using reading_time_step_traced [of w2 e f] by (simp add: s3)
        with t2 [unfolded n2] have "traced w (r3, w3)" by (rule traced_then)
        with Inr s1 s2 s3 None n2 show ?thesis by (simp add: process_file_def Let_def)
      qed
    qed
  qed
qed

lemma process_files_traced: "traced w (process_files e fs w)"
proof (induction fs arbitrary: w)
  case Nil
  show ?case by (simp add: traced_same)
next
  case (Cons f fs)
  obtain r1 w1 where s1: "process_file e f w = (r1, w1)"
    by (cases "process_file e f w")
  have t1: "traced w (r1, w1)"
    using process_file_traced [of w e f] by (simp add: s1)
  show ?case
  proof (cases r1)
    case (Some x)
    with t1 s1 show ?thesis by simp
  next
    case None
    obtain r2 w2 where s2: "process_files e fs w1 = (r2, w2)"
      by (cases "process_files e fs w1")
    have "traced w1 (r2, w2)" using Cons.IH [of w1] by (simp add: s2)
    with t1 [unfolded None] have "traced w (r2, w2)" by (rule traced_then)
    with s1 s2 None show ?thesis by simp
  qed
qed

lemma main_body_traced: "traced w (main_body e w)"
proof -
  obtain res1 w1 where s1: "run e [''git'', ''diff'', ''--cached'', ''--name-status''] w = (res1, w1)"
    by (cases "run e [''git'', ''diff'', ''--cached'', ''--name-status''] w")
  note t1 = run_traced [OF s1]
  show ?thesis
  proof (cases res1)
    case (Inl x)
    with t1 s1 show ?thesis by (simp add: main_body_def)
  next
    case (Inr stdout)
    with t1 have t1: "traced w (None, w1)" by simp
    show ?thesis
    proof (cases "staged_files stdout")
      case (Inl x)
      from t1 have "traced w (Some x, w1)" unfolding traced_iff by blast
      with Inl Inr s1 show ?thesis by (simp add: main_body_def)
    next
      case fs: (Inr fs)
      obtain r2 w2 where s2: "process_files e fs w1 = (r2, w2)"
        by (cases "process_files e fs w1")
      have "traced w1 (r2, w2)" using process_files_traced [of w1 e fs] by (simp add: s2)
      with t1 have t2: "traced w (r2, w2)" by (rule traced_then)
      show ?thesis
      proof (cases r2)
        case (Some x)
        with t2 Inr fs s1 s2 show ?thesis by (simp add: main_body_def)
      next
        case None
        obtain res3 w3 where s3: "run e [''git'', ''update-index'', ''--again''] w2 = (res3, w3)"
          by (cases "run e [''git'', ''update-index'', ''--again''] w2")
        from t2 [unfolded None] run_traced [OF s3]
        have t3: "traced w (case res3 of Inl x \<Rightarrow> Some x | Inr out \<Rightarrow> None, w3)"
          by (rule traced_then)
        show ?thesis
        proof (cases res3)
          case (Inl x)
          with t3 Inr fs s1 s2 s3 None show ?thesis by (simp add: main_body_def)
        next
          case r3: (Inr out3)
          obtain res4 w4 where s4: "run e [''bun'', ''run'', ''lint-staged''] w3 = (res4, w4)"
            by (cases "run e [''bun'', ''run'', ''lint-staged''] w3")
          from t3 r3 have "traced w (None, w3)" by simp
          from this run_traced [OF s4]
          have t4: "traced w (case res4 of Inl x \<Rightarrow> Some x | Inr out \<Rightarrow> None, w4)"
            by (rule traced_then)
          then show ?thesis
            using Inr fs s1 s2 s3 s4 None r3 by (cases res4) (simp_all add: main_body_def)
        qed
      qed
    qed
  qed
qed

lemma invoked_main: "invoked (main e w) = invoked (snd (main_body e w))"
proof (cases "main_body e w")
  case (Pair r w')
  show ?thesis
  proof (cases r)
    case None
    with Pair show ?thesis by (simp add: main_def)
  next
    case (Some x)
    with Pair show ?thesis by (cases x) (simp_all add: main_def print_def)
  qed
qed

text \<open>
  Claim C7: every failure of a process the hook starts (\<open>git\<close> or the lint runner ending
  with a return code other than 0, which raises \<open>CalledProcessError\<close>, or not starting at
  all) is caught inside \<open>main\<close> and reported by a printed message, and \<open>main\<close> returns:
  the failed process is the last one started, its exception is what the \<open>try\<close> body
  raised, and \<open>main\<close> returns the state reached there with the message printed.
\<close>

theorem main_catches_process_failure:
  assumes "(argv, rc) \<in> set (drop (length (invoked w)) (invoked (main e w)))"
    and "rc \<noteq> Some 0"
  shows "last (invoked (main e w)) = (argv, rc)
         \<and> fst (main_body e w) = Some (process_failure argv rc)
         \<and> main e w =
             print (case rc of
                      Some n \<Rightarrow> ErrorMsg (CalledProcessError argv n)
                    | None \<Rightarrow> UnexpectedMsg (OSError (hd argv)))
                   (snd (main_body e w))"
proof -
  obtain r w' where body: "main_body e w = (r, w')"
    by (cases "main_body e w")
  have "traced w (r, w')"
    using main_body_traced [of w e] by (simp add: body)
  then obtain new where new: "invoked w' = invoked w @ new"
    and c: "list_all succeeded new
           \<or> (\<exists>oks a rc'. new = oks @ [(a, rc')] \<and> list_all succeeded oks
                \<and> r = Some (process_failure a rc'))"
    unfolding traced_iff by blast
  have inv: "invoked (main e w) = invoked w @ new"
    by (simp add: invoked_main body new)
  with assms(1) have mem: "(argv, rc) \<in> set new" by simp
  with assms(2) have "\<exists>call \<in> set new. \<not> succeeded call"
    by (intro bexI [of _ "(argv, rc)"]) (simp_all add: succeeded_def)
  then have "\<not> list_all succeeded new"
    by (simp add: list_all_iff)
  with c obtain oks a rc' where l: "new = oks @ [(a, rc')]" and oks: "list_all succeeded oks"
    and r: "r = Some (process_failure a rc')"
    by blast
  from mem l oks assms(2) have same: "a = argv" "rc' = rc"
    by (auto simp: list_all_iff succeeded_def)
  have one: "last (invoked (main e w)) = (argv, rc)"
    by (simp add: inv l same)
  have two: "fst (main_body e w) = Some (process_failure argv rc)"
    by (simp add: body r same)
  have three: "main e w =
             print (case rc of
                      Some n \<Rightarrow> ErrorMsg (CalledProcessError argv n)
                    | None \<Rightarrow> UnexpectedMsg (OSError (hd argv)))
                   (snd (main_body e w))"
    by (cases rc) (simp_all add: main_def body r same process_failure_def)
  from one two three show ?thesis by simp
qed

text \<open>
  The theorem at a run in which the first \<open>git add\<close> returns 1: the hook prints the
  error after the file's name.
\<close>

theorem main_catches_process_failure_witness:
  "printed
     (main
        ((sample_env (unlines [''M'' @ [TAB] @ ''post.mdx'']))
           \<lparr>process := \<lambda>n argv. if n = 1 then Exited 1 []
                                  else Exited 0 (if n = 0 then unlines [''M'' @ [TAB] @ ''post.mdx'']
                                                 else [])\<rparr>)
        (sample_world ''post.mdx''
           (unlines [''---'', ''id: 7'', ''readingTime: 9'', ''---'', ''words''])))
   = [Checking ''post.mdx'', ErrorMsg (CalledProcessError [''git'', ''add'', ''post.mdx''] 1)]"
proof -
  define e where "e = (sample_env (unlines [''M'' @ [TAB] @ ''post.mdx'']))
           \<lparr>process := \<lambda>n argv. if n = 1 then Exited 1 []
                                  else Exited 0 (if n = 0 then unlines [''M'' @ [TAB] @ ''post.mdx'']
                                                 else [])\<rparr>"
  define w0 where "w0 = sample_world ''post.mdx''
           (unlines [''---'', ''id: 7'', ''readingTime: 9'', ''---'', ''words''])"
  have started: "([''git'', ''add'', ''post.mdx''], Some 1)
                   \<in> set (drop (length (invoked w0)) (invoked (main e w0)))"
    unfolding e_def w0_def by code_simp
  have failed: "Some (1 :: int) \<noteq> Some 0"
    by simp
  have before: "printed (snd (main_body e w0)) = [Checking ''post.mdx'']"
    unfolding e_def w0_def by code_simp
  from main_catches_process_failure [OF started failed]
  have "main e w0 =
          print (ErrorMsg (CalledProcessError [''git'', ''add'', ''post.mdx''] 1))
                (snd (main_body e w0))"
    by simp
  then have "printed (main e w0)
      = [Checking ''post.mdx'', ErrorMsg (CalledProcessError [''git'', ''add'', ''post.mdx''] 1)]"
    by (simp add: print_def before)
  then show ?thesis
    unfolding e_def w0_def .
qed

subsection \<open>What the rewrites write\<close>

lemma run_files: "run e argv w = (res, w') \<Longrightarrow> files w' = files w"
  by (auto simp: run_def split: outcome.splits)

lemma git_add_files: "git_add e f w = (r, w') \<Longrightarrow> files w' = files w"
proof -
  assume g: "git_add e f w = (r, w')"
  obtain res w1 where r: "run e [''git'', ''add'', f] w = (res, w1)"
    by (cases "run e [''git'', ''add'', f] w")
  from run_files [OF r] g r show ?thesis
    by (cases res) (auto simp: git_add_def)
qed

lemma git_add_staged:
  "git_add e f w = (None, w') \<Longrightarrow> staged w' f = files w f"
proof -
  assume g: "git_add e f w = (None, w')"
  obtain res w1 where r: "run e [''git'', ''add'', f] w = (res, w1)"
    by (cases "run e [''git'', ''add'', f] w")
  from run_files [OF r] g r show ?thesis
    by (cases res) (auto simp: git_add_def)
qed

lemma update_and_add_files:
  assumes "update_and_add e f updates w = (r, w')"
    and "files w f = Some c" and "re_search_frontmatter c = Some b"
  shows "files w' f = Some (py_replace c b (apply_updates updates b))"
proof -
  let ?t = "(files w)(f \<mapsto> py_replace c b (apply_updates updates b))"
  have u: "update_frontmatter (files w) f updates = Inr ?t"
    using assms(2,3) by (simp add: update_frontmatter_def)
  with assms(1) have "git_add e f (w\<lparr>files := ?t\<rparr>) = (r, w')"
    by (simp add: update_and_add_def)
  from git_add_files [OF this] show ?thesis by simp
qed

lemma update_and_add_staged:
  assumes "update_and_add e f updates w = (None, w')"
  shows "staged w' f = files w' f"
proof (cases "update_frontmatter (files w) f updates")
  case (Inl x)
  with assms show ?thesis by (simp add: update_and_add_def)
next
  case (Inr t)
  with assms have g: "git_add e f (w\<lparr>files := t\<rparr>) = (None, w')"
    by (simp add: update_and_add_def)
  from git_add_staged [OF g] git_add_files [OF g] show ?thesis by simp
qed

lemma key_prefix_short:
  assumes "prefix (key @ '':'') (c # cs @ key @ '':'' @ s)"
  shows "prefix (key @ '':'') (c # cs @ key)"
proof (rule prefix_length_prefix)
  show "prefix (key @ '':'') (c # cs @ key @ '':'' @ s)" by (rule assms)
  show "prefix (c # cs @ key) (c # cs @ key @ '':'' @ s)" by simp
  show "length (key @ '':'') \<le> length (c # cs @ key)" by simp
qed

lemma re_sub_key_before:
  "\<not> sublist (key @ '':'') (pre @ key) \<Longrightarrow>
   re_sub_key key repl (pre @ key @ '':'' @ s) = pre @ re_sub_key key repl (key @ '':'' @ s)"
proof (induction pre)
  case Nil
  show ?case by simp
next
  case (Cons c cs)
  from Cons.prems have np: "\<not> prefix (key @ '':'') (c # cs @ key)"
    and ns: "\<not> sublist (key @ '':'') (cs @ key)"
    by (simp_all add: sublist_Cons_right)
  from np have "\<not> prefix (key @ '':'') (c # cs @ key @ '':'' @ s)"
    using key_prefix_short by blast
  then show ?case using Cons.IH [OF ns] by simp
qed

lemma re_sub_key_at:
  "re_sub_key key repl (key @ '':'' @ s)
     = repl @ re_sub_key key repl (dropWhile (\<lambda>x. x \<noteq> LF) (dropWhile isspace s))"
proof (cases key)
  case Nil
  then show ?thesis by simp
next
  case (Cons k ks)
  then show ?thesis by simp
qed

lemma re_sub_key_first_line:
  assumes first: "\<not> sublist (key @ '':'') (pre @ key)"
    and old: "old \<noteq> []" "\<not> isspace (hd old)" "LF \<notin> set old"
  shows "re_sub_key key repl (pre @ key @ '': '' @ old @ LF # rest)
           = pre @ repl @ re_sub_key key repl (LF # rest)"
proof -
  have sp: "isspace (CHR '' '')" by (simp add: isspace_def)
  from old obtain o1 os where o: "old = o1 # os" "\<not> isspace o1" by (cases old) auto
  have "dropWhile isspace ('' '' @ old @ LF # rest) = old @ LF # rest"
    using sp o by simp
  moreover have "dropWhile (\<lambda>x. x \<noteq> LF) (old @ LF # rest) = LF # rest"
    using old(3) by (auto simp: dropWhile_append3)
  ultimately have "re_sub_key key repl (key @ '':'' @ '' '' @ old @ LF # rest)
      = repl @ re_sub_key key repl (LF # rest)"
    by (simp only: re_sub_key_at)
  moreover have "re_sub_key key repl (pre @ key @ '':'' @ '' '' @ old @ LF # rest)
      = pre @ re_sub_key key repl (key @ '':'' @ '' '' @ old @ LF # rest)"
    using first by (rule re_sub_key_before)
  ultimately show ?thesis by simp
qed

lemma git_add_no_clock: "git_add (e\<lparr>utcnow := clock\<rparr>) f w = git_add e f w"
  by (simp add: git_add_def run_def)

lemma update_and_add_no_clock:
  "update_and_add (e\<lparr>utcnow := clock\<rparr>) f updates w = update_and_add e f updates w"
  by (simp add: update_and_add_def git_add_no_clock cong: sum.case_cong)

lemma draft_step_no_clock:
  "fm ''draft'' \<noteq> Some ''false'' \<Longrightarrow>
   draft_step (e\<lparr>utcnow := clock\<rparr>) f fm w = draft_step e f fm w"
  by (simp add: draft_step_def update_and_add_no_clock)

text \<open>
  The rewrite for the draft state alone: for a document whose \<open>draft\<close> value is
  \<open>false\<close>, it rewrites the \<open>modDatetime\<close> entries its frontmatter block has to the current UTC
  time (the first entry of a block, a line \<open>modDatetime: old\<close>, becomes
  \<open>modDatetime: now\<close> with \<open>now\<close> the clock's text and \<open>Z\<close>) and stages the file; a
  block without the text \<open>modDatetime:\<close> gets no timestamp.  Documents in any other draft
  state do not get this timestamp update: their rewrite does not depend on the clock.
\<close>

lemma draft_step_timestamp:
  assumes step: "draft_step e f fm w = (r, w')"
    and present: "files w f = Some c"
    and block: "re_search_frontmatter c = Some b"
  shows "(fm ''draft'' = Some ''false'' \<longrightarrow>
            files w' f =
              Some (py_replace c b
                      (re_sub_key ''modDatetime'' (''modDatetime: '' @ utcnow e (drawn w) @ ''Z'') b))
            \<and> (r = None \<longrightarrow> staged w' f = files w' f)
            \<and> (\<forall>pre old rest.
                  b = pre @ ''modDatetime'' @ '': '' @ old @ LF # rest
                  \<and> \<not> sublist ''modDatetime:'' (pre @ ''modDatetime'')
                  \<and> old \<noteq> [] \<and> \<not> isspace (hd old) \<and> LF \<notin> set old
                  \<longrightarrow> re_sub_key ''modDatetime'' (''modDatetime: '' @ utcnow e (drawn w) @ ''Z'') b
                      = pre @ (''modDatetime: '' @ utcnow e (drawn w) @ ''Z'')
                          @ re_sub_key ''modDatetime''
                              (''modDatetime: '' @ utcnow e (drawn w) @ ''Z'') (LF # rest))
            \<and> (\<not> sublist ''modDatetime:'' b \<longrightarrow> files w' f = Some c))
         \<and> (fm ''draft'' \<noteq> Some ''false'' \<longrightarrow>
              (\<forall>clock. draft_step (e\<lparr>utcnow := clock\<rparr>) f fm w = (r, w')))"
proof (intro conjI impI allI)
  let ?repl = "''modDatetime: '' @ utcnow e (drawn w) @ ''Z''"
  let ?w2 = "(print (ModUpdated f) w)\<lparr>drawn := Suc (drawn (print (ModUpdated f) w))\<rparr>"
  let ?u = "[(''modDatetime'', utcnow e (drawn w) @ ''Z'')]"
  {
    assume "fm ''draft'' = Some ''false''"
    with step have "update_and_add e f ?u ?w2 = (r, w')"
      by (simp add: draft_step_def Let_def print_def)
  }
  note upd = this
  have file2: "files ?w2 f = Some c"
    using present by (simp add: print_def)
  {
    assume d: "fm ''draft'' = Some ''false''"
    from update_and_add_files [OF upd [OF d] file2 block]
    show "files w' f = Some (py_replace c b (re_sub_key ''modDatetime'' ?repl b))"
      by simp
  }
  note written = this
  {
    assume d: "fm ''draft'' = Some ''false''" and "r = None"
    with upd have "update_and_add e f ?u ?w2 = (None, w')" by simp
    then show "staged w' f = files w' f" by (rule update_and_add_staged)
  }
  {
    fix pre old rest
    assume "b = pre @ ''modDatetime'' @ '': '' @ old @ LF # rest
              \<and> \<not> sublist ''modDatetime:'' (pre @ ''modDatetime'')
              \<and> old \<noteq> [] \<and> \<not> isspace (hd old) \<and> LF \<notin> set old"
    then have b: "b = pre @ ''modDatetime'' @ '': '' @ old @ LF # rest"
      and first: "\<not> sublist (''modDatetime'' @ '':'') (pre @ ''modDatetime'')"
      and old: "old \<noteq> []" "\<not> isspace (hd old)" "LF \<notin> set old"
      by simp_all
    show "re_sub_key ''modDatetime'' ?repl b
            = pre @ ?repl @ re_sub_key ''modDatetime'' ?repl (LF # rest)"
      unfolding b using first old by (rule re_sub_key_first_line)
  }
  {
    assume d: "fm ''draft'' = Some ''false''" and "\<not> sublist ''modDatetime:'' b"
    then have "\<not> sublist (''modDatetime'' @ '':'') b" by simp
    then have "re_sub_key ''modDatetime'' ?repl b = b"
      by (rule re_sub_key_no_match)
    with written [OF d] show "files w' f = Some c"
      by (simp add: py_replace_same)
  }
  {
    fix clock
    assume "fm ''draft'' \<noteq> Some ''false''"
    then have "draft_step (e\<lparr>utcnow := clock\<rparr>) f fm w = draft_step e f fm w"
      by (rule draft_step_no_clock)
    with step show "draft_step (e\<lparr>utcnow := clock\<rparr>) f fm w = (r, w')"
      by simp
  }
qed

text \<open>
  The lemma at a published document (its timestamp becomes the clock's, and the file is
  staged), at a published document without the entry (it keeps its text), and at a first
  release (another clock changes nothing).
\<close>

lemma draft_step_timestamp_example:
  "files (snd (draft_step (sample_env []) ''post.mdx''
                 (parse_frontmatter
                    (unlines [''id: 7'', ''modDatetime: 2023-01-01T00:00:00Z'', ''draft: false'']))
                 (sample_world ''post.mdx''
                    (unlines [''---'', ''id: 7'', ''modDatetime: 2023-01-01T00:00:00Z'',
                              ''draft: false'', ''---'', ''words'']))))
     ''post.mdx''
   = Some (unlines [''---'', ''id: 7'', ''modDatetime: 2024-05-01T12:00:00.000000Z'',
                    ''draft: false'', ''---'', ''words''])
   \<and> staged (snd (draft_step (sample_env []) ''post.mdx''
                 (parse_frontmatter
                    (unlines [''id: 7'', ''modDatetime: 2023-01-01T00:00:00Z'', ''draft: false'']))
                 (sample_world ''post.mdx''
                    (unlines [''---'', ''id: 7'', ''modDatetime: 2023-01-01T00:00:00Z'',
                              ''draft: false'', ''---'', ''words'']))))
     ''post.mdx''
   = Some (unlines [''---'', ''id: 7'', ''modDatetime: 2024-05-01T12:00:00.000000Z'',
                    ''draft: false'', ''---'', ''words''])
   \<and> re_sub_key ''modDatetime'' ''modDatetime: 2024-05-01T12:00:00.000000Z''
       (unlines [''id: 7'', ''modDatetime: 2023-01-01T00:00:00Z'', ''draft: false''])
     = unlines [''id: 7''] @ ''modDatetime: 2024-05-01T12:00:00.000000Z''
         @ re_sub_key ''modDatetime'' ''modDatetime: 2024-05-01T12:00:00.000000Z''
             (LF # unlines [''draft: false''])
   \<and> files (snd (draft_step (sample_env []) ''post.mdx''
                 (parse_frontmatter (unlines [''id: 7'', ''draft: false'']))
                 (sample_world ''post.mdx''
                    (unlines [''---'', ''id: 7'', ''draft: false'', ''---'', ''words'']))))
     ''post.mdx''
   = Some (unlines [''---'', ''id: 7'', ''draft: false'', ''---'', ''words''])
   \<and> draft_step ((sample_env [])\<lparr>utcnow := \<lambda>n. ''1999-12-31T23:59:59''\<rparr>) ''post.mdx''
        (parse_frontmatter (unlines [''id: 7'', ''modDatetime: x'', ''draft: first'']))
        (sample_world ''post.mdx''
           (unlines [''---'', ''id: 7'', ''modDatetime: x'', ''draft: first'', ''---'', ''words'']))
     = draft_step (sample_env []) ''post.mdx''
        (parse_frontmatter (unlines [''id: 7'', ''modDatetime: x'', ''draft: first'']))
        (sample_world ''post.mdx''
           (unlines [''---'', ''id: 7'', ''modDatetime: x'', ''draft: first'', ''---'', ''words'']))"
proof -
  define e where "e = sample_env []"
  define b where "b = unlines [''id: 7'', ''modDatetime: 2023-01-01T00:00:00Z'', ''draft: false'']"
  define c where "c = unlines [''---'', ''id: 7'', ''modDatetime: 2023-01-01T00:00:00Z'',
                              ''draft: false'', ''---'', ''words'']"
  define w where "w = sample_world ''post.mdx'' c"
  define now where "now = ''modDatetime: 2024-05-01T12:00:00.000000Z''"
  define d where "d = unlines [''---'', ''id: 7'', ''modDatetime: 2024-05-01T12:00:00.000000Z'',
                              ''draft: false'', ''---'', ''words'']"
  have clock: "''modDatetime: '' @ utcnow e (drawn w) @ ''Z'' = now"
    by (simp add: e_def w_def now_def sample_env_def sample_world_def)
  have present: "files w ''post.mdx'' = Some c"
    by (simp add: w_def sample_world_def)
  have found: "re_search_frontmatter c = Some b"
    unfolding b_def c_def by code_simp
  have published: "parse_frontmatter b ''draft'' = Some ''false''"
    unfolding b_def by code_simp
  have raised: "fst (draft_step e ''post.mdx'' (parse_frontmatter b) w) = None"
    unfolding e_def b_def w_def c_def by code_simp
  have rewritten: "py_replace c b (re_sub_key ''modDatetime'' now b) = d"
    unfolding b_def c_def now_def d_def by code_simp
  have shape: "b = unlines [''id: 7''] @ ''modDatetime'' @ '': '' @ ''2023-01-01T00:00:00Z''
                     @ LF # unlines [''draft: false'']
               \<and> \<not> sublist ''modDatetime:'' (unlines [''id: 7''] @ ''modDatetime'')
               \<and> ''2023-01-01T00:00:00Z'' \<noteq> [] \<and> \<not> isspace (hd ''2023-01-01T00:00:00Z'')
               \<and> LF \<notin> set ''2023-01-01T00:00:00Z''"
    unfolding b_def by code_simp
  note inst = draft_step_timestamp [OF prod.collapse [symmetric] present found,
               where e = e and fm = "parse_frontmatter b", unfolded clock]
  from inst published
  have one: "files (snd (draft_step e ''post.mdx'' (parse_frontmatter b) w)) ''post.mdx'' = Some d"
    by (simp add: rewritten)
  from inst published raised one
  have two: "staged (snd (draft_step e ''post.mdx'' (parse_frontmatter b) w)) ''post.mdx'' = Some d"
    by simp
  from inst published shape
  have three: "re_sub_key ''modDatetime'' now b
                 = unlines [''id: 7''] @ now
                     @ re_sub_key ''modDatetime'' now (LF # unlines [''draft: false''])"
    by blast
  define b0 where "b0 = unlines [''id: 7'', ''draft: false'']"
  define c0 where "c0 = unlines [''---'', ''id: 7'', ''draft: false'', ''---'', ''words'']"
  define w0 where "w0 = sample_world ''post.mdx'' c0"
  have present0: "files w0 ''post.mdx'' = Some c0"
    by (simp add: w0_def sample_world_def)
  have found0: "re_search_frontmatter c0 = Some b0"
    unfolding b0_def c0_def by code_simp
  have published0: "parse_frontmatter b0 ''draft'' = Some ''false''"
    unfolding b0_def by code_simp
  have absent: "\<not> sublist ''modDatetime:'' b0"
    unfolding b0_def by code_simp
  from draft_step_timestamp [OF prod.collapse [symmetric] present0 found0,
         where e = e and fm = "parse_frontmatter b0"]
       published0 absent
  have four: "files (snd (draft_step e ''post.mdx'' (parse_frontmatter b0) w0)) ''post.mdx''
                = Some c0"
    by blast
  define b' where "b' = unlines [''id: 7'', ''modDatetime: x'', ''draft: first'']"
  define c' where "c' = unlines [''---'', ''id: 7'', ''modDatetime: x'', ''draft: first'',
                                ''---'', ''words'']"
  define v where "v = sample_world ''post.mdx'' c'"
  have present': "files v ''post.mdx'' = Some c'"
    by (simp add: v_def sample_world_def)
  have found': "re_search_frontmatter c' = Some b'"
    unfolding b'_def c'_def by code_simp
  have first: "parse_frontmatter b' ''draft'' \<noteq> Some ''false''"
    unfolding b'_def by code_simp
  have five: "draft_step (e\<lparr>utcnow := \<lambda>n. ''1999-12-31T23:59:59''\<rparr>) ''post.mdx''
               (parse_frontmatter b') v
             = draft_step e ''post.mdx'' (parse_frontmatter b') v"
    using draft_step_timestamp [OF prod.collapse [symmetric] present' found',
            where e = e and fm = "parse_frontmatter b'"]
          first
    by simp
  from one two three four five show ?thesis
    unfolding e_def b_def c_def w_def now_def d_def b0_def c0_def w0_def b'_def c'_def v_def
    by blast
qed

text \<open>
  A run of the hook at a published document without a \<open>modDatetime\<close> entry: the hook
  prints that the timestamp is updated, and the file keeps its text, without a timestamp.
\<close>

lemma main_sets_no_timestamp:
  "parse_frontmatter (unlines [''id: 7'', ''draft: false'']) ''draft'' = Some ''false''
   \<and> printed (main (sample_env (unlines [''M'' @ [TAB] @ ''post.mdx'']))
                 (sample_world ''post.mdx''
                    (unlines [''---'', ''id: 7'', ''draft: false'', ''---'', ''words''])))
       = [Checking ''post.mdx'', ModUpdated ''post.mdx'']
   \<and> files (main (sample_env (unlines [''M'' @ [TAB] @ ''post.mdx'']))
               (sample_world ''post.mdx''
                  (unlines [''---'', ''id: 7'', ''draft: false'', ''---'', ''words''])))
       ''post.mdx''
       = Some (unlines [''---'', ''id: 7'', ''draft: false'', ''---'', ''words''])"
  by code_simp

subsection \<open>The reading time of a processed file\<close>

lemma update_and_add_files_no_block:
  assumes "update_and_add e f updates w = (r, w')"
    and "files w f = Some c" and "re_search_frontmatter c = None"
  shows "files w' f = Some c"
proof -
  have "update_frontmatter (files w) f updates = Inr (files w)"
    using assms(2,3) by (simp add: update_frontmatter_def)
  with assms(1) have "git_add e f (w\<lparr>files := files w\<rparr>) = (r, w')"
    by (simp add: update_and_add_def)
  from git_add_files [OF this] assms(2) show ?thesis by simp
qed

text \<open>
  Claim C9: for every processed file, whatever its draft state, the reading time written
  into the frontmatter is computed over the entire text of the file, the frontmatter block
  included.  \<open>w2\<close> is the state after the rewrites of \<open>id\<close> and \<open>draft\<close>; the file's
  whole text \<open>c\<close> there is what \<open>calculate_reading_time\<close> reads, and the file ends with
  its block's \<open>readingTime\<close> entries rewritten to that value, and staged.
\<close>

theorem process_file_reading_time:
  assumes processed: "process_file e f w = (None, w')"
    and block: "get_frontmatter (files w) f = Inr fm_str"
    and mid: "w2 = snd (draft_step e f (parse_frontmatter fm_str)
                          (snd (id_step e f (parse_frontmatter fm_str) (print (Checking f) w))))"
  shows "\<exists>c. files w2 f = Some c
             \<and> files w' f =
                 Some (case re_search_frontmatter c of
                         None \<Rightarrow> c
                       | Some b \<Rightarrow>
                           py_replace c b
                             (re_sub_key ''readingTime''
                                (''readingTime: '' @ str_int (calculate_reading_time c)) b))
             \<and> staged w' f = files w' f"
proof -
  let ?fm = "parse_frontmatter fm_str"
  let ?w0 = "print (Checking f) w"
  obtain r1 w1 where s1: "id_step e f ?fm ?w0 = (r1, w1)"
    by (cases "id_step e f ?fm ?w0")
  obtain r2 w2' where s2: "draft_step e f ?fm w1 = (r2, w2')"
    by (cases "draft_step e f ?fm w1")
  have block0: "get_frontmatter (files ?w0) f = Inr fm_str"
    using block by (simp add: print_def)
  from processed block0 s1 have r1: "r1 = None"
    by (cases r1) (simp_all add: process_file_def Let_def)
  from processed block0 s1 s2 r1 have r2: "r2 = None"
    by (cases r2) (simp_all add: process_file_def Let_def)
  have w2: "w2 = w2'"
    by (simp add: mid s1 s2)
  from processed block0 s1 s2 r1 r2 have last: "reading_time_step e f w2 = (None, w')"
    by (simp add: process_file_def Let_def w2)
  then obtain c where c: "files w2 f = Some c"
    by (cases "files w2 f") (simp_all add: reading_time_step_def)
  let ?u = "[(''readingTime'', str_int (calculate_reading_time c))]"
  from last c have upd: "update_and_add e f ?u w2 = (None, w')"
    by (simp add: reading_time_step_def Let_def)
  have written: "files w' f =
                 Some (case re_search_frontmatter c of
                         None \<Rightarrow> c
                       | Some b \<Rightarrow>
                           py_replace c b
                             (re_sub_key ''readingTime''
                                (''readingTime: '' @ str_int (calculate_reading_time c)) b))"
  proof (cases "re_search_frontmatter c")
    case None
    with update_and_add_files_no_block [OF upd c] show ?thesis by simp
  next
    case (Some b)
    with update_and_add_files [OF upd c] show ?thesis by simp
  qed
  have "staged w' f = files w' f"
    using upd by (rule update_and_add_staged)
  with c written show ?thesis by blast
qed

text \<open>
  The theorem at a draft whose body has 199 words: with the eight words of the block the
  file has 207, and the reading time written is 2, not the 1 of the body alone.
\<close>

theorem process_file_reading_time_witness:
  "calculate_reading_time (concat (replicate 199 ''w '')) = 1
   \<and> files (snd (process_file (sample_env []) ''post.mdx''
                   (sample_world ''post.mdx''
                      (unlines [''---'', ''id: 7'', ''draft: true'', ''readingTime: 0'', ''---'']
                       @ concat (replicate 199 ''w '')))))
       ''post.mdx''
     = Some (unlines [''---'', ''id: 7'', ''draft: true'', ''readingTime: 2'', ''---'']
             @ concat (replicate 199 ''w ''))"
proof -
  define e where "e = sample_env []"
  define c where "c = unlines [''---'', ''id: 7'', ''draft: true'', ''readingTime: 0'', ''---'']
                       @ concat (replicate 199 ''w '')"
  define w where "w = sample_world ''post.mdx'' c"
  define fm_str where "fm_str = unlines [''id: 7'', ''draft: true'', ''readingTime: 0'']"
  define w2 where
    "w2 = snd (draft_step e ''post.mdx'' (parse_frontmatter fm_str)
                 (snd (id_step e ''post.mdx'' (parse_frontmatter fm_str)
                         (print (Checking ''post.mdx'') w))))"
  have body: "calculate_reading_time (concat (replicate 199 ''w '')) = 1"
    by code_simp
  have raised: "fst (process_file e ''post.mdx'' w) = None"
    unfolding e_def w_def c_def by code_simp
  then have processed:
    "process_file e ''post.mdx'' w = (None, snd (process_file e ''post.mdx'' w))"
    by (metis prod.collapse)
  have block: "get_frontmatter (files w) ''post.mdx'' = Inr fm_str"
    unfolding w_def c_def fm_str_def by code_simp
  have there: "files w2 ''post.mdx'' = Some c"
    unfolding w2_def e_def w_def c_def fm_str_def by code_simp
  have written:
    "(case re_search_frontmatter c of
        None \<Rightarrow> c
      | Some b \<Rightarrow>
          py_replace c b
            (re_sub_key ''readingTime''
               (''readingTime: '' @ str_int (calculate_reading_time c)) b))
     = unlines [''---'', ''id: 7'', ''draft: true'', ''readingTime: 2'', ''---'']
         @ concat (replicate 199 ''w '')"
    unfolding c_def by code_simp
  from process_file_reading_time [OF processed block w2_def] there
  have "files (snd (process_file e ''post.mdx'' w)) ''post.mdx''
          = Some (case re_search_frontmatter c of
                    None \<Rightarrow> c
                  | Some b \<Rightarrow>
                      py_replace c b
                        (re_sub_key ''readingTime''
                           (''readingTime: '' @ str_int (calculate_reading_time c)) b))"
    by auto
  then have "files (snd (process_file e ''post.mdx'' w)) ''post.mdx''
          = Some (unlines [''---'', ''id: 7'', ''draft: true'', ''readingTime: 2'', ''---'']
                    @ concat (replicate 199 ''w ''))"
    by (simp only: written)
  with body show ?thesis
    unfolding e_def w_def c_def by simp
qed

subsection \<open>The selection of staged files\<close>

text \<open>
  For name-status lines \<open>status<TAB>path\<close> whose status and path are not empty and hold
  no whitespace, the files of the hook are the paths of the lines whose status starts
  with \<open>M\<close> and whose path ends with \<open>.mdx\<close>, in the order of the lines.
\<close>

lemma linebreak_isspace: "islinebreak c \<Longrightarrow> isspace c"
  by (auto simp: islinebreak_def isspace_def Let_def)

lemma splitlines_from_line:
  "list_all (\<lambda>c. \<not> islinebreak c) s \<Longrightarrow>
   splitlines_from l (s @ LF # rest) = (rev l @ s) # splitlines_from [] rest"
proof (induction s arbitrary: l)
  case Nil
  show ?case by (simp add: islinebreak_def)
next
  case (Cons c cs)
  from Cons.prems have c: "\<not> islinebreak c" and cs: "list_all (\<lambda>c. \<not> islinebreak c) cs"
    by simp_all
  from c have "c \<noteq> CR" by (auto simp: islinebreak_def)
  with c show ?case using Cons.IH [OF cs, of "c # l"] by simp
qed

lemma splitlines_unlines:
  "list_all (list_all (\<lambda>c. \<not> islinebreak c)) ls \<Longrightarrow> splitlines (unlines ls) = ls"
proof (induction ls)
  case Nil
  show ?case by (simp add: unlines_def splitlines_def)
next
  case (Cons l ls)
  then have "splitlines_from [] (l @ LF # unlines ls) = l # ls"
    by (simp add: splitlines_from_line splitlines_def)
  then show ?case by (simp add: unlines_def splitlines_def)
qed

lemma split_from_word:
  "list_all (\<lambda>c. \<not> isspace c) s \<Longrightarrow> split_from w (s @ rest) = split_from (rev s @ w) rest"
  by (induction s arbitrary: w) simp_all

lemma py_split_two_fields:
  assumes "st \<noteq> []" "p \<noteq> []"
    and "list_all (\<lambda>c. \<not> isspace c) st" "list_all (\<lambda>c. \<not> isspace c) p"
  shows "py_split (st @ TAB # p) = [st, p]"
proof -
  have tab: "isspace TAB" by (simp add: isspace_def)
  have "split_from [] (st @ TAB # p) = split_from (rev st) (TAB # p)"
    using split_from_word [OF assms(3), of "[]"] by simp
  also have "\<dots> = st # split_from [] (p @ [])"
    using tab assms(1) by simp
  also have "split_from [] (p @ []) = split_from (rev p) []"
    using split_from_word [OF assms(4), of "[]" "[]"] by simp
  also have "\<dots> = [p]"
    using assms(2) by simp
  finally show ?thesis by (simp add: py_split_def)
qed

lemma prefix_M_status: "st \<noteq> [] \<Longrightarrow> prefix ''M'' (st @ TAB # p) \<longleftrightarrow> prefix ''M'' st"
  by (cases st) simp_all

lemma suffix_mdx_path: "suffix ''.mdx'' (st @ TAB # p) \<longleftrightarrow> suffix ''.mdx'' p"
proof -
  have "prefix ''xdm.'' (q @ TAB # r) \<longleftrightarrow> prefix ''xdm.'' q" for q r :: string
  proof (cases q)
    case Nil
    then show ?thesis by simp
  next
    case q1: (Cons a q1)
    show ?thesis
    proof (cases q1)
      case Nil
      with q1 show ?thesis by simp
    next
      case q2: (Cons b q2)
      show ?thesis
      proof (cases q2)
        case Nil
        with q1 q2 show ?thesis by simp
      next
        case q3: (Cons c q3)
        show ?thesis
        proof (cases q3)
          case Nil
          with q1 q2 q3 show ?thesis by simp
        next
          case (Cons d q4)
          with q1 q2 q3 show ?thesis by simp
        qed
      qed
    qed
  qed
  from this [of "rev p" "rev st"] show ?thesis
    by (simp add: suffix_to_prefix)
qed

lemma second_fields_entries:
  assumes "list_all (\<lambda>(st, p). st \<noteq> [] \<and> p \<noteq> [] \<and> list_all (\<lambda>c. \<not> isspace c) (st @ p)) entries"
  shows "second_fields (map (\<lambda>(st, p). st @ TAB # p) entries)
           = Inr (map snd (filter (\<lambda>(st, p). prefix ''M'' st \<and> suffix ''.mdx'' p) entries))"
  using assms
proof (induction entries)
  case Nil
  show ?case by simp
next
  case (Cons en entries)
  obtain st p where en: "en = (st, p)" by (cases en)
  from Cons.prems en have wf: "st \<noteq> []" "p \<noteq> []"
    "list_all (\<lambda>c. \<not> isspace c) st" "list_all (\<lambda>c. \<not> isspace c) p"
    and rest: "list_all (\<lambda>(st, p). st \<noteq> [] \<and> p \<noteq> [] \<and> list_all (\<lambda>c. \<not> isspace c) (st @ p)) entries"
    by simp_all
  have fields: "py_split (st @ TAB # p) = [st, p]"
    using wf by (rule py_split_two_fields)
  show ?case
    using Cons.IH [OF rest] wf(1)
    by (simp add: en fields prefix_M_status suffix_mdx_path)
qed

lemma staged_files_plain_paths:
  assumes "list_all (\<lambda>(st, p). st \<noteq> [] \<and> p \<noteq> [] \<and> list_all (\<lambda>c. \<not> isspace c) (st @ p)) entries"
  shows "staged_files (unlines (map (\<lambda>(st, p). st @ TAB # p) entries))
           = Inr (map snd (filter (\<lambda>(st, p). prefix ''M'' st \<and> suffix ''.mdx'' p) entries))"
proof -
  have tab: "\<not> islinebreak TAB" by (simp add: islinebreak_def)
  have "list_all (list_all (\<lambda>c. \<not> islinebreak c)) (map (\<lambda>(st, p). st @ TAB # p) entries)"
    using assms tab linebreak_isspace by (fastforce simp: list_all_iff)
  then have "splitlines (unlines (map (\<lambda>(st, p). st @ TAB # p) entries))
               = map (\<lambda>(st, p). st @ TAB # p) entries"
    by (rule splitlines_unlines)
  then show ?thesis
    using second_fields_entries [OF assms] by (simp add: staged_files_def)
qed

subsection \<open>Runs of the hook\<close>

text \<open>
  Claim C6 at a staged path with a space.  \<open>git diff --cached --name-status\<close> prints the
  line \<open>M<TAB>my notes.mdx\<close>; it starts with \<open>M\<close> and ends with \<open>.mdx\<close>, and
  \<open>line.split()[1]\<close> is \<open>my\<close>: the hook opens a file \<open>my\<close>, reports the error, and
  leaves the staged file as it was.
\<close>

theorem staged_files_path_with_space:
  "staged_files (unlines [''M'' @ [TAB] @ ''my notes.mdx'']) = Inr [''my'']
   \<and> printed (main (sample_env (unlines [''M'' @ [TAB] @ ''my notes.mdx'']))
                 (sample_world ''my notes.mdx''
                    (unlines [''---'', ''id: 7'', ''readingTime: 9'', ''---'', ''words''])))
       = [Checking ''my'', UnexpectedMsg (OSError ''my'')]
   \<and> files (main (sample_env (unlines [''M'' @ [TAB] @ ''my notes.mdx'']))
               (sample_world ''my notes.mdx''
                  (unlines [''---'', ''id: 7'', ''readingTime: 9'', ''---'', ''words''])))
       ''my notes.mdx''
       = Some (unlines [''---'', ''id: 7'', ''readingTime: 9'', ''---'', ''words''])"
  by code_simp

text \<open>
  The rewrite of \<open>id\<close> leaves every file alone whose block does not hold the text
  \<open>id:\<close>: a missing identifier is never written.
\<close>
lemma id_step_without_id_text:
  assumes "id_step e f fm w = (r, w')"
    and "get_frontmatter (files w) f = Inr b"
    and "\<not> sublist ''id:'' b"
  shows "files w' = files w"
proof (cases "fm ''id'' = None")
  case True
  let ?w1 = "print (AddingId f) (w\<lparr>drawn := Suc (drawn w)\<rparr>)"
  let ?u = "[(''id'', uuid4 e (drawn w))]"
  from assms(2) obtain c where c: "files ?w1 f = Some c"
    by (auto simp: get_frontmatter_def print_def split: option.splits)
  have same: "update_frontmatter (files ?w1) f ?u = Inr (files ?w1)"
  proof (rule update_frontmatter_same)
    show "files ?w1 f = Some c" by (rule c)
  next
    fix fm'
    assume "re_search_frontmatter c = Some fm'"
    with assms(2) c have "fm' = b"
      by (simp add: get_frontmatter_def print_def)
    with assms(3) have "\<not> sublist (''id'' @ '':'') fm'" by simp
    then show "apply_updates ?u fm' = fm'"
      by (simp add: re_sub_key_no_match)
  qed
  from assms(1) True have "update_and_add e f ?u ?w1 = (r, w')"
    by (simp add: id_step_def Let_def)
  with same have "git_add e f (?w1\<lparr>files := files ?w1\<rparr>) = (r, w')"
    by (simp add: update_and_add_def)
  from git_add_files [OF this] show ?thesis
    by (simp add: print_def)
next
  case False
  with assms(1) show ?thesis by (auto simp: id_step_def)
qed

text \<open>
  Claim C1 at a staged file whose frontmatter has no \<open>id\<close>: the hook prints that it adds
  one, the substitution finds no \<open>id:\<close> to rewrite, and the file is staged again with the
  text it had.
\<close>

theorem main_adds_no_id:
  "parse_frontmatter (unlines [''title: Hello'']) ''id'' = None
   \<and> printed (main (sample_env (unlines [''M'' @ [TAB] @ ''post.mdx'']))
                 (sample_world ''post.mdx''
                    (unlines [''---'', ''title: Hello'', ''---'', ''words''])))
       = [Checking ''post.mdx'', AddingId ''post.mdx'']
   \<and> files (main (sample_env (unlines [''M'' @ [TAB] @ ''post.mdx'']))
               (sample_world ''post.mdx''
                  (unlines [''---'', ''title: Hello'', ''---'', ''words''])))
       ''post.mdx''
       = Some (unlines [''---'', ''title: Hello'', ''---'', ''words''])
   \<and> invoked (main (sample_env (unlines [''M'' @ [TAB] @ ''post.mdx'']))
                 (sample_world ''post.mdx''
                    (unlines [''---'', ''title: Hello'', ''---'', ''words''])))
       = [([''git'', ''diff'', ''--cached'', ''--name-status''], Some 0),
          ([''git'', ''add'', ''post.mdx''], Some 0),
          ([''git'', ''add'', ''post.mdx''], Some 0),
          ([''git'', ''update-index'', ''--again''], Some 0),
          ([''bun'', ''run'', ''lint-staged''], Some 0)]"
  by code_simp

text \<open>
  Claim C2 at a staged file with an empty \<open>modDatetime:\<close> line right before
  \<open>draft: first\<close>: the substitution for \<open>modDatetime\<close> takes the newline and the next
  line with it (\<open>\s*\<close> matches newlines), and the frontmatter is left without a
  \<open>draft\<close> key.
\<close>

theorem main_first_release_loses_draft:
  "parse_frontmatter (unlines [''id: 7'', ''modDatetime:'', ''draft: first'']) ''draft''
     = Some ''first''
   \<and> printed (main (sample_env (unlines [''M'' @ [TAB] @ ''post.mdx'']))
                 (sample_world ''post.mdx''
                    (unlines [''---'', ''id: 7'', ''modDatetime:'', ''draft: first'', ''---'',
                              ''words''])))
       = [Checking ''post.mdx'', FirstRelease ''post.mdx'']
   \<and> files (main (sample_env (unlines [''M'' @ [TAB] @ ''post.mdx'']))
               (sample_world ''post.mdx''
                  (unlines [''---'', ''id: 7'', ''modDatetime:'', ''draft: first'', ''---'',
                            ''words''])))
       ''post.mdx''
       = Some (unlines [''---'', ''id: 7'', ''modDatetime: '', ''---'', ''words''])
   \<and> parse_frontmatter (unlines [''id: 7'', ''modDatetime: '']) ''draft'' = None"
  by code_simp

text \<open>
  Claim C3 at a published document whose block has a \<open>modDatetime\<close> entry right after an
  empty \<open>readingTime:\<close> line.  The rewrite for \<open>draft: false\<close> sets the entry to the
  current time; the substitution for \<open>readingTime\<close> that follows takes the newline and
  the whole next line with it (\<open>\s*\<close> matches newlines), and the hook leaves the file
  without a \<open>modDatetime\<close> entry.
\<close>

theorem main_published_loses_timestamp:
  "parse_frontmatter
     (unlines [''id: 7'', ''readingTime:'', ''modDatetime: 2023-01-01T00:00:00Z'', ''draft: false''])
     ''draft'' = Some ''false''
   \<and> parse_frontmatter
       (unlines [''id: 7'', ''readingTime:'', ''modDatetime: 2023-01-01T00:00:00Z'', ''draft: false''])
       ''modDatetime'' = Some ''2023-01-01T00:00:00Z''
   \<and> printed (main (sample_env (unlines [''M'' @ [TAB] @ ''post.mdx'']))
                 (sample_world ''post.mdx''
                    (unlines [''---'', ''id: 7'', ''readingTime:'',
                              ''modDatetime: 2023-01-01T00:00:00Z'', ''draft: false'', ''---'',
                              ''words''])))
       = [Checking ''post.mdx'', ModUpdated ''post.mdx'']
   \<and> files (main (sample_env (unlines [''M'' @ [TAB] @ ''post.mdx'']))
               (sample_world ''post.mdx''
                  (unlines [''---'', ''id: 7'', ''readingTime:'',
                            ''modDatetime: 2023-01-01T00:00:00Z'', ''draft: false'', ''---'',
                            ''words''])))
       ''post.mdx''
       = Some (unlines [''---'', ''id: 7'', ''readingTime: 1'', ''draft: false'', ''---'',
                        ''words''])
   \<and> parse_frontmatter (unlines [''id: 7'', ''readingTime: 1'', ''draft: false''])
       ''modDatetime'' = None"
  by code_simp

end
